theory Spec2Isabelle
  imports Main "HOL-Library.Word"
begin

unbundle bit_operations_syntax

section \<open>Machine types and status codes\<close>

text \<open>
  The driver is built for 64-bit Windows: \<open>ULONG\<close>, \<open>UINT32\<close>, \<open>NTSTATUS\<close> and
  \<open>ACCESS_MASK\<close> are 32 bits wide, pointers, \<open>ULONG_PTR\<close>, \<open>UINT64\<close> and \<open>SIZE_T\<close> are
  64 bits wide. Arithmetic on them wraps around, as the word types do.
\<close>

type_synonym ULONG = "32 word"
type_synonym NTSTATUS = "32 word"
type_synonym ptr = "64 word"
type_synonym byte = "8 word"

definition STATUS_SUCCESS :: NTSTATUS where
  "STATUS_SUCCESS = 0"

definition STATUS_UNSUCCESSFUL :: NTSTATUS where
  "STATUS_UNSUCCESSFUL = 0xC0000001"

text \<open>\<open>NT_SUCCESS(s)\<close> is \<open>((NTSTATUS)(s)) >= 0\<close> on the signed 32-bit status.\<close>

definition NT_SUCCESS :: "NTSTATUS \<Rightarrow> bool" where
  "NT_SUCCESS s = (0 \<le> sint s)"

section \<open>The protected-process registry (ProcessUtils.hpp)\<close>

text \<open>
  \<open>pGlobals.Processes\<close> holds the array \<open>Pids[MAX_PIDS]\<close> and the counter \<open>PidsCount\<close>.
  The declaration and the value of \<open>MAX_PIDS\<close> are in a header that is not part of the
  sources at hand, so the capacity is a parameter of the model: it is the length of
  the list \<open>Pids\<close>. The counter is modelled as an unbounded integer.
\<close>

record ProcessGlobals =
  Pids :: "ULONG list"
  PidsCount :: int

definition MAX_PIDS :: "ProcessGlobals \<Rightarrow> nat" where
  "MAX_PIDS g = length (Pids g)"

text \<open>
  The three registry functions share one loop shape:
  \<open>for (int i = 0; i < bound; i++) if (Pids[i] == v) { ...; return true; }\<close>.
  \<open>scan_pids ps v bound i\<close> runs that loop from index \<open>i\<close> and reports the index at which
  the body is entered. A read at an index outside the array is undefined behaviour in
  the source; the model reports it as \<open>OutOfBounds\<close>.
\<close>

datatype scan_result = Found nat | NotFound | OutOfBounds

function scan_pids :: "ULONG list \<Rightarrow> ULONG \<Rightarrow> nat \<Rightarrow> nat \<Rightarrow> scan_result" where
  "scan_pids ps v bound i =
     (if i < bound then
        (if i < length ps then
           (if ps ! i = v then Found i else scan_pids ps v bound (Suc i))
         else OutOfBounds)
      else NotFound)"
  by pat_completeness auto
termination
  by (relation "measure (\<lambda>(ps, v, bound, i). bound - i)") auto

declare scan_pids.simps [simp del]

text \<open>\<open>bool FindProcess(ULONG pid)\<close>: the scan is bounded by \<open>PidsCount\<close>.\<close>

definition FindProcess :: "ProcessGlobals \<Rightarrow> ULONG \<Rightarrow> bool option" where
  "FindProcess g pid =
     (case scan_pids (Pids g) pid (nat (PidsCount g)) 0 of
        Found i \<Rightarrow> Some True
      | NotFound \<Rightarrow> Some False
      | OutOfBounds \<Rightarrow> None)"

text \<open>\<open>bool AddProcess(ULONG pid)\<close>: the scan looks for the value 0 and is bounded by \<open>MAX_PIDS\<close>.\<close>

definition AddProcess :: "ProcessGlobals \<Rightarrow> ULONG \<Rightarrow> bool \<times> ProcessGlobals" where
  "AddProcess g pid =
     (case scan_pids (Pids g) 0 (MAX_PIDS g) 0 of
        Found i \<Rightarrow> (True, g\<lparr>Pids := (Pids g)[i := pid], PidsCount := PidsCount g + 1\<rparr>)
      | NotFound \<Rightarrow> (False, g)
      | OutOfBounds \<Rightarrow> (False, g))"

text \<open>\<open>bool RemoveProcess(ULONG pid)\<close>: the scan is bounded by \<open>PidsCount\<close>.\<close>

definition RemoveProcess :: "ProcessGlobals \<Rightarrow> ULONG \<Rightarrow> (bool \<times> ProcessGlobals) option" where
  "RemoveProcess g pid =
     (case scan_pids (Pids g) pid (nat (PidsCount g)) 0 of
        Found i \<Rightarrow> Some (True, g\<lparr>Pids := (Pids g)[i := 0], PidsCount := PidsCount g - 1\<rparr>)
      | NotFound \<Rightarrow> Some (False, g)
      | OutOfBounds \<Rightarrow> None)"

text \<open>The registry at driver load: every slot empty, the counter at zero.\<close>

definition empty_registry :: "nat \<Rightarrow> ProcessGlobals" where
  "empty_registry n = \<lparr>Pids = replicate n 0, PidsCount = 0\<rparr>"

text \<open>A sequence of \<open>AddProcess\<close> calls, with the result of each call.\<close>

fun add_seq :: "ProcessGlobals \<Rightarrow> ULONG list \<Rightarrow> bool list \<times> ProcessGlobals" where
  "add_seq g [] = ([], g)"
| "add_seq g (pid # pids) =
     (case AddProcess g pid of (r, g') \<Rightarrow>
        (case add_seq g' pids of (rs, g'') \<Rightarrow> (r # rs, g'')))"

text \<open>A sequence of registry calls, with the value each call returns.\<close>

datatype registry_call = Add ULONG | Remove ULONG | Find ULONG

fun run_calls :: "ProcessGlobals \<Rightarrow> registry_call list \<Rightarrow> (bool list \<times> ProcessGlobals) option" where
  "run_calls g [] = Some ([], g)"
| "run_calls g (Add pid # cs) =
     (case AddProcess g pid of (r, g') \<Rightarrow>
        (case run_calls g' cs of None \<Rightarrow> None | Some (rs, g'') \<Rightarrow> Some (r # rs, g'')))"
| "run_calls g (Remove pid # cs) =
     (case RemoveProcess g pid of None \<Rightarrow> None
      | Some (r, g') \<Rightarrow>
        (case run_calls g' cs of None \<Rightarrow> None | Some (rs, g'') \<Rightarrow> Some (r # rs, g'')))"
| "run_calls g (Find pid # cs) =
     (case FindProcess g pid of None \<Rightarrow> None
      | Some r \<Rightarrow>
        (case run_calls g cs of None \<Rightarrow> None | Some (rs, g'') \<Rightarrow> Some (r # rs, g'')))"

section \<open>The access filter (ProcessUtils.hpp, OnPreOpenProcess)\<close>

definition PROCESS_TERMINATE :: ULONG where
  "PROCESS_TERMINATE = 1"

definition PROCESS_CREATE_THREAD :: ULONG where
  "PROCESS_CREATE_THREAD = 0x2"

definition PROCESS_VM_READ :: ULONG where
  "PROCESS_VM_READ = 0x10"

definition PROCESS_VM_OPERATION :: ULONG where
  "PROCESS_VM_OPERATION = 8"

text \<open>
  The fields of \<open>OB_PRE_OPERATION_INFORMATION\<close> the callback touches: the one-bit flag
  \<open>KernelHandle\<close>, the process object \<open>Object\<close> and
  \<open>Parameters->CreateHandleInformation.DesiredAccess\<close>.
\<close>

record OB_PRE_OPERATION_INFORMATION =
  KernelHandle :: bool
  Object :: ptr
  DesiredAccess :: ULONG

datatype OB_PREOP_CALLBACK_STATUS = OB_PREOP_SUCCESS

text \<open>
  \<open>PsGetProcessId\<close> is the kernel's routine and \<open>PROCESS_DUP_HANDLE\<close> a macro of the
  kernel headers; neither is defined in the sources at hand, so both are parameters.
  \<open>HandleToULong\<close> truncates the handle to 32 bits. The lock taken by \<open>AutoLock\<close> only
  serialises the callback with the registry calls and is not modelled. The result is
  \<open>None\<close> when \<open>FindProcess\<close> reads outside the array.
\<close>

definition OnPreOpenProcess ::
  "ProcessGlobals \<Rightarrow> (ptr \<Rightarrow> ptr) \<Rightarrow> ULONG \<Rightarrow> OB_PRE_OPERATION_INFORMATION \<Rightarrow>
     (OB_PREOP_CALLBACK_STATUS \<times> OB_PRE_OPERATION_INFORMATION) option" where
  "OnPreOpenProcess g PsGetProcessId PROCESS_DUP_HANDLE Info =
     (if KernelHandle Info then Some (OB_PREOP_SUCCESS, Info)
      else
        (let pid = (ucast (PsGetProcessId (Object Info)) :: ULONG) in
         case FindProcess g pid of
           None \<Rightarrow> None
         | Some True \<Rightarrow>
             (let a1 = DesiredAccess Info AND NOT PROCESS_VM_OPERATION;
                  a2 = a1 AND NOT PROCESS_VM_READ;
                  a3 = a2 AND NOT PROCESS_CREATE_THREAD;
                  a4 = a3 AND NOT PROCESS_DUP_HANDLE;
                  a5 = a4 AND NOT PROCESS_TERMINATE
              in Some (OB_PREOP_SUCCESS, Info\<lparr>DesiredAccess := a5\<rparr>))
         | Some False \<Rightarrow> Some (OB_PREOP_SUCCESS, Info)))"

text \<open>The union of the five access rights the filter strips.\<close>

definition stripped_rights :: "ULONG \<Rightarrow> ULONG" where
  "stripped_rights PROCESS_DUP_HANDLE =
     PROCESS_VM_OPERATION OR PROCESS_VM_READ OR PROCESS_CREATE_THREAD OR PROCESS_DUP_HANDLE
       OR PROCESS_TERMINATE"

section \<open>The offset resolver (ProcessUtils.hpp)\<close>

text \<open>
  \<open>RtlGetVersion\<close> is the kernel's: its answer, the status and the build number it
  stores in \<open>osVersion.dwBuildNumber\<close>, is a parameter. When the query fails both
  resolvers return \<open>STATUS_UNSUCCESSFUL\<close> converted to their result type: \<open>(ULONG)\<close>
  keeps the 32 bits, \<open>(UINT64)\<close> sign-extends the negative status.
\<close>

type_synonym os_version = "NTSTATUS \<times> ULONG"

definition GetActiveProcessLinksOffset :: "os_version \<Rightarrow> ULONG" where
  "GetActiveProcessLinksOffset RtlGetVersion =
     (case RtlGetVersion of (result, dwBuildNumber) \<Rightarrow>
        if NT_SUCCESS result then
          (if dwBuildNumber \<in> {10240, 10586, 14393, 18362, 18363} then 0x2f0
           else if dwBuildNumber \<in> {15063, 16299, 17134, 17763} then 0x2e8
           else 0x448)
        else STATUS_UNSUCCESSFUL)"

definition GetTokenOffset :: "os_version \<Rightarrow> 64 word" where
  "GetTokenOffset RtlGetVersion =
     (case RtlGetVersion of (result, dwBuildNumber) \<Rightarrow>
        if NT_SUCCESS result then
          (if dwBuildNumber \<in> {18362, 18363} then 0x360
           else if dwBuildNumber \<in> {10240, 10586, 14393, 15063, 16299, 17134, 17763} then 0x358
           else 0x4b8)
        else scast STATUS_UNSUCCESSFUL)"

section \<open>Kernel memory\<close>

text \<open>
  Byte-addressed kernel memory. \<open>*(UINT64*)a\<close> reads or writes the eight bytes from
  \<open>a\<close>; addresses wrap at 64 bits. Every address can be accessed: a fault is not modelled.
\<close>

type_synonym byte_memory = "ptr \<Rightarrow> byte"

definition load_UINT64 :: "byte_memory \<Rightarrow> ptr \<Rightarrow> byte list" where
  "load_UINT64 mem a = map (\<lambda>i. mem (a + of_nat i)) [0..<8]"

definition store_UINT64 :: "byte_memory \<Rightarrow> ptr \<Rightarrow> byte list \<Rightarrow> byte_memory" where
  "store_UINT64 mem a bs = (\<lambda>x. if unat (x - a) < 8 then bs ! unat (x - a) else mem x)"

text \<open>
  A pointer in memory is its eight bytes, the least significant first. \<open>read_ptr\<close> and
  \<open>write_ptr\<close> are a load and a store through a pointer to a pointer.
\<close>

definition bytes_of_ptr :: "ptr \<Rightarrow> byte list" where
  "bytes_of_ptr v = map (\<lambda>i. ucast (drop_bit (8 * i) v)) [0..<8]"

definition ptr_of_bytes :: "byte list \<Rightarrow> ptr" where
  "ptr_of_bytes bs = word_rcat (rev bs)"

definition read_ptr :: "byte_memory \<Rightarrow> ptr \<Rightarrow> ptr" where
  "read_ptr mem a = ptr_of_bytes (load_UINT64 mem a)"

definition write_ptr :: "byte_memory \<Rightarrow> ptr \<Rightarrow> ptr \<Rightarrow> byte_memory" where
  "write_ptr mem a v = store_UINT64 mem a (bytes_of_ptr v)"

section \<open>The process hider (ProcessUtils.hpp)\<close>

text \<open>
  A \<open>LIST_ENTRY\<close> is two pointers, \<open>Flink\<close> at offset 0 and \<open>Blink\<close> at offset 8.
  \<open>LIST_ENTRY_at mem a\<close> is the structure read at the address \<open>a\<close>; structures at
  addresses less than 16 bytes apart share bytes. The pid fields are read through
  \<open>UINT32_at\<close>, the \<open>UINT32\<close> found at an address when \<open>HideProcess\<close> is entered: every
  such read precedes the only stores of the function.
\<close>

record LIST_ENTRY =
  Flink :: ptr
  Blink :: ptr

type_synonym list_entries = "ptr \<Rightarrow> LIST_ENTRY"

definition LIST_ENTRY_at :: "byte_memory \<Rightarrow> list_entries" where
  "LIST_ENTRY_at mem a = \<lparr>Flink = read_ptr mem a, Blink = read_ptr mem (a + 8)\<rparr>"

definition write_LIST_ENTRY :: "byte_memory \<Rightarrow> ptr \<Rightarrow> LIST_ENTRY \<Rightarrow> byte_memory" where
  "write_LIST_ENTRY mem a e = write_ptr (write_ptr mem a (Flink e)) (a + 8) (Blink e)"

text \<open>
  \<open>void RemoveProcessLinks(PLIST_ENTRY current)\<close>. The four stores happen in the order
  of the source, each on the memory the earlier ones left: \<open>previous->Flink = next\<close>
  writes at \<open>previous\<close>, \<open>next->Blink = previous\<close> at \<open>next + 8\<close>, \<open>current->Blink\<close> at
  \<open>current + 8\<close> and \<open>current->Flink\<close> at \<open>current\<close>. \<open>&current->Flink\<close> is the address of
  the first field of \<open>*current\<close>, that is \<open>current\<close> itself.
\<close>

definition RemoveProcessLinks :: "byte_memory \<Rightarrow> ptr \<Rightarrow> byte_memory" where
  "RemoveProcessLinks m current =
     (let previous = Blink (LIST_ENTRY_at m current);
          next = Flink (LIST_ENTRY_at m current);
          m1 = write_ptr m previous next;
          m2 = write_ptr m1 (next + 8) previous;
          m3 = write_ptr m2 (current + 8) current;
          m4 = write_ptr m3 current current
      in m4)"

text \<open>
  The \<open>while\<close> loop of \<open>HideProcess\<close>. It has no bound of its own, so it is a partial
  function: \<open>None\<close> is the loop that never comes back to \<open>StartProcess\<close>. The result
  carries the status, the memory, and the \<open>EPROCESS\<close> addresses whose pid field
  was compared, in order (\<open>seen\<close>, kept for the statements about the traversal).
\<close>

partial_function (option) HideProcess_loop ::
  "(ptr \<Rightarrow> ULONG) \<Rightarrow> ULONG \<Rightarrow> ptr \<Rightarrow> ptr \<Rightarrow> ptr \<Rightarrow> byte_memory \<Rightarrow> ptr \<Rightarrow> ptr list \<Rightarrow>
     (NTSTATUS \<times> byte_memory \<times> ptr list) option" where
  "HideProcess_loop UINT32_at pid pidOffset listOffset StartProcess m currentEProcess seen =
     (if StartProcess \<noteq> currentEProcess then
        (if UINT32_at (currentEProcess + pidOffset) = pid then
           Some (STATUS_SUCCESS, RemoveProcessLinks m (currentEProcess + listOffset),
                 seen @ [currentEProcess])
         else
           HideProcess_loop UINT32_at pid pidOffset listOffset StartProcess m
             (Flink (LIST_ENTRY_at m (currentEProcess + listOffset)) - listOffset)
             (seen @ [currentEProcess]))
      else Some (STATUS_SUCCESS, m, seen))"

text \<open>
  \<open>NTSTATUS HideProcess(ULONG pid)\<close>. \<open>PsGetCurrentProcess()\<close> is the parameter
  \<open>currentEProcess\<close>. \<open>sizeof(INT_PTR)\<close> is 8, and \<open>listOffset\<close> is an \<open>ULONG\<close>: the sum
  wraps at 32 bits before it is widened for the pointer arithmetic.
\<close>

definition HideProcess ::
  "os_version \<Rightarrow> ptr \<Rightarrow> (ptr \<Rightarrow> ULONG) \<Rightarrow> byte_memory \<Rightarrow> ULONG \<Rightarrow>
     (NTSTATUS \<times> byte_memory \<times> ptr list) option" where
  "HideProcess RtlGetVersion currentEProcess UINT32_at m pid =
     (let pidOffset = GetActiveProcessLinksOffset RtlGetVersion in
      if pidOffset = STATUS_UNSUCCESSFUL then Some (STATUS_UNSUCCESSFUL, m, [])
      else
        (let listOffset = pidOffset + 8;
             currentList = currentEProcess + ucast listOffset;
             currentPid = currentEProcess + ucast pidOffset
         in if UINT32_at currentPid = pid then
              Some (STATUS_SUCCESS, RemoveProcessLinks m currentList, [currentEProcess])
            else
              HideProcess_loop UINT32_at pid (ucast pidOffset) (ucast listOffset) currentEProcess m
                (Flink (LIST_ENTRY_at m currentList) - ucast listOffset) [currentEProcess]))"

text \<open>
  A circular doubly linked list: \<open>chain l a bs z\<close> says that, among the structures \<open>l\<close>,
  the forward links lead from \<open>a\<close> through \<open>bs\<close> to \<open>z\<close> and the backward links lead back;
  \<open>circular_list m ns\<close> says that the structures read in the memory \<open>m\<close> at the distinct
  addresses \<open>ns\<close>, in this order, form a ring. \<open>separated ns\<close> says that no two of these
  16-byte structures overlap: their addresses are at least 16 bytes apart, both ways
  round the 64-bit address space.
\<close>

fun chain :: "list_entries \<Rightarrow> ptr \<Rightarrow> ptr list \<Rightarrow> ptr \<Rightarrow> bool" where
  "chain l a [] z = (Flink (l a) = z \<and> Blink (l z) = a)"
| "chain l a (b # bs) z = (Flink (l a) = b \<and> Blink (l b) = a \<and> chain l b bs z)"

definition circular_list :: "byte_memory \<Rightarrow> ptr list \<Rightarrow> bool" where
  "circular_list m ns =
     (case ns of [] \<Rightarrow> False | a # as \<Rightarrow> distinct ns \<and> chain (LIST_ENTRY_at m) a as a)"

definition separated :: "ptr list \<Rightarrow> bool" where
  "separated ns = (\<forall>a \<in> set ns. \<forall>b \<in> set ns. a \<noteq> b \<longrightarrow> 16 \<le> unat (b - a))"

text \<open>
  A concrete ring for the examples: three processes at \<open>0x1000\<close>, \<open>0x2000\<close> and \<open>0x3000\<close>
  on a build whose offset is \<open>0x448\<close>, so that their pid fields are at \<open>+0x448\<close> and
  their list entries at \<open>+0x450\<close>; the pids are 4, 100 and 200. The rest of the memory
  is zero.
\<close>

definition ring3 :: byte_memory where
  "ring3 =
     write_LIST_ENTRY
       (write_LIST_ENTRY
          (write_LIST_ENTRY (\<lambda>x. 0) 0x1450 \<lparr>Flink = 0x2450, Blink = 0x3450\<rparr>)
          0x2450 \<lparr>Flink = 0x3450, Blink = 0x1450\<rparr>)
       0x3450 \<lparr>Flink = 0x1450, Blink = 0x2450\<rparr>"


text \<open>
  A ring of three structures of which two overlap: the one at \<open>0x5008\<close> starts in the
  middle of the one at \<open>0x5000\<close>, so the pointer stored at \<open>0x5008\<close> is the \<open>Blink\<close> of the
  first and the \<open>Flink\<close> of the second. The third is at \<open>0x6000\<close>.
\<close>

definition overlapping_ring :: byte_memory where
  "overlapping_ring =
     write_ptr (write_ptr (write_ptr (write_ptr (write_ptr (\<lambda>x. 0)
       0x5000 0x5008) 0x5008 0x6000) 0x5010 0x5000) 0x6000 0x5000) 0x6008 0x5008"

section \<open>The privilege elevator (ProcessUtils.hpp)\<close>

text \<open>
  What the driver asks of the kernel's object manager, memory manager and pool, in
  the order of the calls. A successful \<open>PsLookupProcessByProcessId\<close> hands out a
  referenced process object (\<open>Referenced\<close>); \<open>ObDereferenceObject\<close> gives the reference
  back (\<open>Dereferenced\<close>). The other events belong to \<open>PatchModule\<close>: a pool allocation
  that succeeded, with the size asked for, and \<open>ExFreePool\<close>; \<open>KeStackAttachProcess\<close> and
  \<open>KeUnstackDetachProcess\<close>; \<open>KeDelayExecutionThread\<close>; a handle opened by
  \<open>ObOpenObjectByPointer\<close> and \<open>ZwClose\<close>; a call of \<open>ZwProtectVirtualMemory\<close> with the
  handle, base address, size and protection passed in; and a call of \<open>MmCopyVirtualMemory\<close>
  with the destination address and the bytes of the source buffer.
\<close>

datatype pool_buffer = ModuleNameBuffer | FunctionNameBuffer | PatchBuffer

datatype kernel_event =
    Referenced ptr
  | Dereferenced ptr
  | PoolAllocated pool_buffer nat
  | PoolFreed pool_buffer
  | Attached ptr
  | Detached
  | Delayed
  | HandleOpened ptr
  | HandleClosed ptr
  | ProtectRequested ptr ptr "64 word" ULONG
  | CopyRequested ptr "byte list"

definition SYSTEM_PROCESS_PID :: ULONG where
  "SYSTEM_PROCESS_PID = 4"

text \<open>
  \<open>NTSTATUS ElevateProcess(ULONG targetPid)\<close>. \<open>PsLookupProcessByProcessId\<close> is the
  kernel's: its answer for a pid, the status and the process object, is a parameter.
  The result is the status, the memory and the object-manager events of the call.
\<close>

definition ElevateProcess ::
  "os_version \<Rightarrow> (ULONG \<Rightarrow> NTSTATUS \<times> ptr) \<Rightarrow> byte_memory \<Rightarrow> ULONG \<Rightarrow>
     NTSTATUS \<times> byte_memory \<times> kernel_event list" where
  "ElevateProcess RtlGetVersion PsLookupProcessByProcessId mem targetPid =
     (case PsLookupProcessByProcessId targetPid of (status, targetProcess) \<Rightarrow>
        (let tokenOffset = GetTokenOffset RtlGetVersion in
         if \<not> NT_SUCCESS status then (status, mem, [])
         else
           (case PsLookupProcessByProcessId SYSTEM_PROCESS_PID of (status', privilegedProcess) \<Rightarrow>
              if \<not> NT_SUCCESS status' then
                (status', mem, [Referenced targetProcess, Dereferenced targetProcess])
              else
                (status',
                 store_UINT64 mem (targetProcess + tokenOffset)
                   (load_UINT64 mem (privilegedProcess + tokenOffset)),
                 [Referenced targetProcess, Referenced privilegedProcess,
                  Dereferenced privilegedProcess, Dereferenced targetProcess]))))"

text \<open>Every reference taken in a run is given back once: the counts agree per object.\<close>

definition references_released :: "kernel_event list \<Rightarrow> bool" where
  "references_released evs =
     (list_all (\<lambda>ev. case ev of
          Referenced p \<Rightarrow> count_list evs (Referenced p) = count_list evs (Dereferenced p)
        | Dereferenced p \<Rightarrow> count_list evs (Referenced p) = count_list evs (Dereferenced p)
        | _ \<Rightarrow> True) evs)"

text \<open>
  An example memory for the elevator: one byte \<open>0xAA\<close> at \<open>0x20000 + 0xFFFFFFFFC0000001\<close>
  (which wraps to \<open>0xFFFFFFFFC0020001\<close>), zero elsewhere; and a second with the token
  bytes of the process at \<open>0x20000\<close> at offset \<open>0x4b8\<close>.
\<close>

definition stray_memory :: byte_memory where
  "stray_memory = (\<lambda>x. if x = 0xFFFFFFFFC0020001 then 0xAA else 0)"

definition token_memory :: byte_memory where
  "token_memory = (\<lambda>x. if x = 0x204b8 then 0x11 else if x = 0x204bf then 0x88 else 0)"

definition two_processes :: "ULONG \<Rightarrow> NTSTATUS \<times> ptr" where
  "two_processes pid =
     (if pid = 4 then (STATUS_SUCCESS, 0x20000)
      else if pid = 1234 then (STATUS_SUCCESS, 0x10000)
      else (0xC000000B, 0))"

section \<open>The remote module patcher (ModuleUtils.hpp)\<close>

text \<open>
  The request. The structure \<open>PatchedModule\<close> is declared in a header that is not part
  of the sources at hand; the fields are those \<open>PatchModule\<close> reads. A string field holds
  the characters found from its pointer on; as in C, a string ends before its first
  NUL, and a list without a NUL is taken to be followed by one.
\<close>

type_synonym WCHAR = "16 word"

record PatchedModule =
  Pid :: ULONG
  Patch :: "byte list"
  FunctionName :: "byte list"
  ModuleName :: "WCHAR list"

definition strlen :: "byte list \<Rightarrow> nat" where
  "strlen s = length (takeWhile (\<lambda>c. c \<noteq> 0) s)"

definition wcslen :: "WCHAR list \<Rightarrow> nat" where
  "wcslen s = length (takeWhile (\<lambda>c. c \<noteq> 0) s)"

text \<open>The characters of a string followed by its NUL: \<open>strlen s + 1\<close> of them.\<close>

definition c_string :: "byte list \<Rightarrow> byte list" where
  "c_string s = takeWhile (\<lambda>c. c \<noteq> 0) s @ [0]"

definition c_wstring :: "WCHAR list \<Rightarrow> WCHAR list" where
  "c_wstring s = takeWhile (\<lambda>c. c \<noteq> 0) s @ [0]"

text \<open>
  \<open>memcpy(dst, src, n)\<close> on a destination buffer and a source region of known sizes.
  Copying more than either holds is undefined behaviour in the source: \<open>None\<close>.
\<close>

definition memcpy :: "'a list \<Rightarrow> 'a list \<Rightarrow> nat \<Rightarrow> 'a list option" where
  "memcpy dst src n =
     (if n \<le> length dst \<and> n \<le> length src then Some (take n src @ drop n dst) else None)"

text \<open>
  Case-insensitive comparison as \<open>_wcsnicmp(s1, s2, n) == 0\<close> and \<open>_stricmp(s1, s2) == 0\<close>
  decide it: character by character, at most \<open>n\<close> of them, up to the NUL. The run-time
  library is not part of the sources; the folding of the ASCII letters is modelled.
\<close>

definition towlower :: "WCHAR \<Rightarrow> WCHAR" where
  "towlower c = (if 0x41 \<le> c \<and> c \<le> 0x5A then c + 0x20 else c)"

definition tolower :: "byte \<Rightarrow> byte" where
  "tolower c = (if 0x41 \<le> c \<and> c \<le> 0x5A then c + 0x20 else c)"

fun wcsnicmp_equal :: "WCHAR list \<Rightarrow> WCHAR list \<Rightarrow> nat \<Rightarrow> bool" where
  "wcsnicmp_equal s1 s2 0 = True"
| "wcsnicmp_equal s1 s2 (Suc n) =
     (let c1 = (case s1 of [] \<Rightarrow> 0 | c # _ \<Rightarrow> towlower c);
          c2 = (case s2 of [] \<Rightarrow> 0 | c # _ \<Rightarrow> towlower c)
      in if c1 \<noteq> c2 then False
         else if c1 = 0 then True
         else wcsnicmp_equal (tl s1) (tl s2) n)"

definition stricmp_equal :: "byte list \<Rightarrow> byte list \<Rightarrow> bool" where
  "stricmp_equal s1 s2 =
     (map tolower (takeWhile (\<lambda>c. c \<noteq> 0) s1) = map tolower (takeWhile (\<lambda>c. c \<noteq> 0) s2))"

text \<open>
  What \<open>PatchModule\<close> reads in the target process. The loader's module list is the
  ring \<open>InLoadOrderModuleList\<close> unrolled from the head's \<open>Flink\<close> until the head comes
  back. \<open>LoaderData\<close> is read again after every delay: \<open>LoaderData peb i\<close> is the pointer
  found after \<open>i\<close> delays, \<open>None\<close> for \<open>NULL\<close>. \<open>PE_IMAGE\<close> holds what the code reads of the
  image mapped at a base address: the DOS magic, the signature of the NT headers, the
  virtual address of the export directory, and the export directory's three tables
  (the name at \<open>names[j]\<close>, \<open>ordinals[j]\<close>, \<open>addresses[i]\<close>).
\<close>

record LDR_DATA_TABLE_ENTRY =
  FullDllName_Length :: "16 word"
  FullDllName_Buffer :: "WCHAR list"
  DllBase :: ptr

record REALPEB =
  LoaderData :: "nat \<Rightarrow> LDR_DATA_TABLE_ENTRY list option"

record PE_IMAGE =
  e_magic :: "16 word"
  Signature :: ULONG
  ExportVirtualAddress :: ULONG
  NumberOfNames :: ULONG
  names :: "nat \<Rightarrow> byte list"
  ordinals :: "nat \<Rightarrow> 16 word"
  addresses :: "nat \<Rightarrow> ULONG"

definition IMAGE_DOS_SIGNATURE :: "16 word" where
  "IMAGE_DOS_SIGNATURE = 0x5A4D"

definition IMAGE_NT_SIGNATURE :: ULONG where
  "IMAGE_NT_SIGNATURE = 0x00004550"

definition PAGE_EXECUTE_READWRITE :: ULONG where
  "PAGE_EXECUTE_READWRITE = 0x40"

text \<open>
  The kernel's answers. \<open>ZwProtectVirtualMemory\<close> and \<open>MmCopyVirtualMemory\<close> are the
  function pointers of \<open>dimGlobals\<close>, \<open>None\<close> for \<open>NULL\<close>. \<open>ExAllocatePool\<close> says whether the
  allocation of a buffer of a size succeeds. \<open>ZwProtectVirtualMemory\<close> receives the handle,
  \<open>*BaseAddress\<close>, \<open>*RegionSize\<close> and the new protection and answers with the status and
  the values it leaves in \<open>*BaseAddress\<close>, \<open>*RegionSize\<close> and \<open>*OldProtection\<close>: the source
  passes \<open>&functionAddress\<close> and \<open>&patchLen\<close>, so the callee may change both.
  \<open>MmCopyVirtualMemory\<close> receives the target process, the destination address and the
  bytes of the source buffer.
\<close>

record kernel =
  ZwProtectVirtualMemory :: "(ptr \<Rightarrow> ptr \<Rightarrow> 64 word \<Rightarrow> ULONG \<Rightarrow> NTSTATUS \<times> ptr \<times> 64 word \<times> ULONG) option"
  MmCopyVirtualMemory :: "(ptr \<Rightarrow> ptr \<Rightarrow> byte list \<Rightarrow> NTSTATUS) option"
  ExAllocatePool :: "pool_buffer \<Rightarrow> nat \<Rightarrow> bool"
  PsLookupProcessByProcessId :: "ULONG \<Rightarrow> NTSTATUS \<times> ptr"
  PsGetProcessPeb :: "ptr \<Rightarrow> REALPEB option"
  image_at :: "ptr \<Rightarrow> PE_IMAGE"
  ObOpenObjectByPointer :: "ptr \<Rightarrow> NTSTATUS \<times> ptr"

text \<open>
  A call of \<open>PatchModule\<close> either returns a status or runs into the undefined behaviour
  of a \<open>memcpy\<close> beyond its buffer; both carry the kernel events up to that point.
\<close>

datatype patch_result = Returned NTSTATUS "kernel_event list" | BufferOverrun "kernel_event list"

text \<open>
  Lines 31 to 53: the three pool allocations and the copies into them. The first two
  copies fill \<open>moduleName\<close> and \<open>functionName\<close> with the strings and their NULs. The third
  \<open>memcpy\<close> copies \<open>strlen(Patch)\<close> bytes of \<open>FunctionName\<close> into the buffer \<open>functionName\<close>,
  which holds \<open>strlen(FunctionName) + 1\<close> bytes; nothing is ever stored in the buffer \<open>patch\<close>.
\<close>

definition stage_request ::
  "kernel \<Rightarrow> PatchedModule \<Rightarrow> patch_result + (WCHAR list \<times> byte list \<times> kernel_event list)" where
  "stage_request k M =
     (let moduleNameSize = (wcslen (ModuleName M) + 1) * 2;
          functionNameSize = strlen (FunctionName M) + 1;
          patchSize = strlen (Patch M);
          ev1 = [PoolAllocated ModuleNameBuffer moduleNameSize];
          ev2 = ev1 @ [PoolAllocated FunctionNameBuffer functionNameSize];
          ev3 = ev2 @ [PoolAllocated PatchBuffer patchSize]
      in
      if \<not> ExAllocatePool k ModuleNameBuffer moduleNameSize then
        Inl (Returned STATUS_UNSUCCESSFUL [])
      else if \<not> ExAllocatePool k FunctionNameBuffer functionNameSize then
        Inl (Returned STATUS_UNSUCCESSFUL (ev1 @ [PoolFreed ModuleNameBuffer]))
      else if \<not> ExAllocatePool k PatchBuffer patchSize then
        Inl (Returned STATUS_UNSUCCESSFUL
               (ev2 @ [PoolFreed FunctionNameBuffer, PoolFreed ModuleNameBuffer]))
      else
        (let moduleName = c_wstring (ModuleName M);
             functionName = c_string (FunctionName M)
         in case memcpy functionName (c_string (FunctionName M)) (strlen (Patch M)) of
              None \<Rightarrow> Inl (BufferOverrun ev3)
            | Some functionName' \<Rightarrow> Inr (moduleName, functionName', ev3)))"

text \<open>Lines 67 to 70: the bounded wait for the loader data; the result is the number of delays.\<close>

function wait_for_loader :: "(nat \<Rightarrow> 'a option) \<Rightarrow> nat \<Rightarrow> nat" where
  "wait_for_loader ldr i = (if ldr i = None \<and> i < 10 then wait_for_loader ldr (Suc i) else i)"
  by pat_completeness auto
termination
  by (relation "measure (\<lambda>(ldr, i). 10 - i)") auto

declare wait_for_loader.simps [simp del]

text \<open>
  Lines 78 to 88: the walk over the module list. The count passed to \<open>_wcsnicmp\<close> is
  \<open>FullDllName.Length / sizeof(wchar_t) - 4\<close> in \<open>size_t\<close> arithmetic, which wraps below 4
  characters. The result is \<open>moduleImageBase\<close>, \<open>NULL\<close> when no entry matches.
\<close>

fun find_module :: "LDR_DATA_TABLE_ENTRY list \<Rightarrow> WCHAR list \<Rightarrow> ptr" where
  "find_module [] moduleName = 0"
| "find_module (pEntry # rest) moduleName =
     (if wcsnicmp_equal (FullDllName_Buffer pEntry) moduleName
           (unat ((ucast (FullDllName_Length pEntry) :: 64 word) div 2 - 4))
      then DllBase pEntry
      else find_module rest moduleName)"

text \<open>Lines 119 and 120: the first index \<open>j < NumberOfNames\<close> whose name matches.\<close>

function find_export :: "(nat \<Rightarrow> byte list) \<Rightarrow> byte list \<Rightarrow> nat \<Rightarrow> nat \<Rightarrow> nat option" where
  "find_export nms functionName n j =
     (if j < n then
        (if stricmp_equal (nms j) functionName then Some j
         else find_export nms functionName n (Suc j))
      else None)"
  by pat_completeness auto
termination
  by (relation "measure (\<lambda>(nms, functionName, n, j). n - j)") auto

declare find_export.simps [simp del]

text \<open>
  Lines 60 to 120, between the attach and the match of an export: \<open>Inl\<close> is a run that
  reaches \<open>CleanUp\<close> without a matching export, with the status it returns and the number
  of delays; \<open>Inr\<close> is a run that resolved the function, with the number of delays and
  \<open>moduleImageBase + addresses[ordinals[j]]\<close>.
\<close>

definition locate_function ::
  "kernel \<Rightarrow> ptr \<Rightarrow> WCHAR list \<Rightarrow> byte list \<Rightarrow> (NTSTATUS \<times> nat) + (nat \<times> ptr)" where
  "locate_function k TargetProcess moduleName functionName =
     (case PsGetProcessPeb k TargetProcess of
        None \<Rightarrow> Inl (STATUS_UNSUCCESSFUL, 0)
      | Some targetPeb \<Rightarrow>
          (let delays = wait_for_loader (LoaderData targetPeb) 0 in
           case LoaderData targetPeb delays of
             None \<Rightarrow> Inl (STATUS_UNSUCCESSFUL, delays)
           | Some InLoadOrderModuleList \<Rightarrow>
               (let moduleImageBase = find_module InLoadOrderModuleList moduleName;
                    image = image_at k moduleImageBase
                in if moduleImageBase = 0 then Inl (STATUS_UNSUCCESSFUL, delays)
                   else if e_magic image \<noteq> IMAGE_DOS_SIGNATURE then Inl (STATUS_UNSUCCESSFUL, delays)
                   else if Signature image \<noteq> IMAGE_NT_SIGNATURE then Inl (STATUS_UNSUCCESSFUL, delays)
                   else if ExportVirtualAddress image = 0 then Inl (STATUS_UNSUCCESSFUL, delays)
                   else
                     (case find_export (names image) functionName (unat (NumberOfNames image)) 0 of
                        None \<Rightarrow> Inl (STATUS_SUCCESS, delays)
                      | Some j \<Rightarrow>
                          Inr (delays,
                               moduleImageBase + ucast (addresses image (unat (ordinals image j))))))))"

definition testPatch :: "byte list" where
  "testPatch = [0xB8, 0x57, 0x00, 0x07, 0x80, 0xC3]"

text \<open>
  Lines 121 to 165: the body entered at the matching export, and the status the
  function ends with (\<open>STATUS_SUCCESS\<close> when \<open>success\<close> is still true).
\<close>

definition patch_function ::
  "(ptr \<Rightarrow> ptr \<Rightarrow> 64 word \<Rightarrow> ULONG \<Rightarrow> NTSTATUS \<times> ptr \<times> 64 word \<times> ULONG) \<Rightarrow>
   (ptr \<Rightarrow> ptr \<Rightarrow> byte list \<Rightarrow> NTSTATUS) \<Rightarrow> kernel \<Rightarrow> ptr \<Rightarrow> ptr \<Rightarrow> NTSTATUS \<times> kernel_event list" where
  "patch_function protect copy k TargetProcess functionAddress =
     (case ObOpenObjectByPointer k TargetProcess of (opened, hTargetProcess) \<Rightarrow>
        if opened \<noteq> STATUS_SUCCESS then (STATUS_UNSUCCESSFUL, [])
        else
          (case protect hTargetProcess functionAddress 6 PAGE_EXECUTE_READWRITE of
             (status, functionAddress', patchLen', oldProtection) \<Rightarrow>
               if status \<noteq> STATUS_SUCCESS then
                 (status,
                  [HandleOpened hTargetProcess,
                   ProtectRequested hTargetProcess functionAddress 6 PAGE_EXECUTE_READWRITE,
                   HandleClosed hTargetProcess])
               else
                 (let copied = copy TargetProcess functionAddress' testPatch in
                  (if copied \<noteq> STATUS_SUCCESS then copied else STATUS_SUCCESS,
                   [HandleOpened hTargetProcess,
                    ProtectRequested hTargetProcess functionAddress 6 PAGE_EXECUTE_READWRITE,
                    CopyRequested functionAddress' testPatch,
                    ProtectRequested hTargetProcess functionAddress' patchLen' oldProtection,
                    HandleClosed hTargetProcess]))))"

text \<open>The label \<open>CleanUp\<close>, lines 166 to 172.\<close>

definition CleanUp :: "ptr \<Rightarrow> kernel_event list" where
  "CleanUp TargetProcess =
     [Detached, PoolFreed ModuleNameBuffer, PoolFreed FunctionNameBuffer, PoolFreed PatchBuffer,
      Dereferenced TargetProcess]"

text \<open>
  Lines 55 to 172, after the staging: the lookup of the target process, the attach,
  the search, the patch and \<open>CleanUp\<close>. The kernel hands out the process reference when
  the lookup succeeds in the sense of \<open>NT_SUCCESS\<close>; the source goes on only when the
  status is \<open>STATUS_SUCCESS\<close> itself, and returns at once otherwise.
\<close>

definition patch_target ::
  "(ptr \<Rightarrow> ptr \<Rightarrow> 64 word \<Rightarrow> ULONG \<Rightarrow> NTSTATUS \<times> ptr \<times> 64 word \<times> ULONG) \<Rightarrow>
   (ptr \<Rightarrow> ptr \<Rightarrow> byte list \<Rightarrow> NTSTATUS) \<Rightarrow> kernel \<Rightarrow> ULONG \<Rightarrow> WCHAR list \<Rightarrow> byte list \<Rightarrow>
     NTSTATUS \<times> kernel_event list" where
  "patch_target protect copy k pid moduleName functionName =
     (case PsLookupProcessByProcessId k pid of (found, TargetProcess) \<Rightarrow>
        if found \<noteq> STATUS_SUCCESS then
          (STATUS_UNSUCCESSFUL, if NT_SUCCESS found then [Referenced TargetProcess] else [])
        else
          (case locate_function k TargetProcess moduleName functionName of
             Inl (status, delays) \<Rightarrow>
               (status,
                [Referenced TargetProcess, Attached TargetProcess] @ replicate delays Delayed @
                CleanUp TargetProcess)
           | Inr (delays, functionAddress) \<Rightarrow>
               (case patch_function protect copy k TargetProcess functionAddress of
                  (status, patched) \<Rightarrow>
                    (status,
                     [Referenced TargetProcess, Attached TargetProcess] @ replicate delays Delayed @
                     patched @ CleanUp TargetProcess))))"

text \<open>\<open>NTSTATUS PatchModule(PatchedModule* ModuleToPatch)\<close>.\<close>

definition PatchModule :: "kernel \<Rightarrow> PatchedModule \<Rightarrow> patch_result" where
  "PatchModule k ModuleToPatch =
     (case (ZwProtectVirtualMemory k, MmCopyVirtualMemory k) of
        (Some protect, Some copy) \<Rightarrow>
          (case stage_request k ModuleToPatch of
             Inl finished \<Rightarrow> finished
           | Inr (moduleName, functionName, staged) \<Rightarrow>
               (case patch_target protect copy k (Pid ModuleToPatch) moduleName functionName of
                  (status, evs) \<Rightarrow> Returned status (staged @ evs)))
      | _ \<Rightarrow> Returned STATUS_UNSUCCESSFUL [])"

text \<open>Projections of a result, and of the events: the copies asked for, and the bytes they cover.\<close>

fun result_events :: "patch_result \<Rightarrow> kernel_event list" where
  "result_events (Returned status evs) = evs"
| "result_events (BufferOverrun evs) = evs"

fun copy_requests :: "kernel_event list \<Rightarrow> (ptr \<times> byte list) list" where
  "copy_requests [] = []"
| "copy_requests (CopyRequested a bs # evs) = (a, bs) # copy_requests evs"
| "copy_requests (ev # evs) = copy_requests evs"

fun protect_requests :: "kernel_event list \<Rightarrow> (ptr \<times> 64 word \<times> ULONG) list" where
  "protect_requests [] = []"
| "protect_requests (ProtectRequested h a n prot # evs) = (a, n, prot) # protect_requests evs"
| "protect_requests (ev # evs) = protect_requests evs"

definition written_addresses :: "kernel_event list \<Rightarrow> ptr list" where
  "written_addresses evs =
     concat (map (\<lambda>(a, bs). map (\<lambda>i. a + of_nat i) [0..<length bs]) (copy_requests evs))"

fun result_status :: "patch_result \<Rightarrow> NTSTATUS option" where
  "result_status (Returned status evs) = Some status"
| "result_status (BufferOverrun evs) = None"

text \<open>
  An example target for the patcher. Process 1234 is the object at \<open>0x10000\<close>; its loader
  data is there at once and lists one module, \<open>a.dll\<close>, mapped at \<open>0x400000\<close>; the image
  exports \<open>Bar\<close> at \<open>+0x2000\<close> and \<open>Foo\<close> at \<open>+0x3010\<close>. Every allocation succeeds, the
  handle \<open>0x80\<close> is opened, the protection call leaves its arguments as they are and
  reports the old protection \<open>0x20\<close>, and the copy succeeds. The request asks for \<open>foo\<close>
  in the module \<open>a\<close>, with the two patch bytes \<open>0x90 0x90\<close>.
\<close>

definition demo_image :: PE_IMAGE where
  "demo_image =
     \<lparr>e_magic = 0x5A4D, Signature = 0x4550, ExportVirtualAddress = 0x1000, NumberOfNames = 2,
      names = (\<lambda>j. if j = 0 then [0x42, 0x61, 0x72] else if j = 1 then [0x46, 0x6F, 0x6F] else []),
      ordinals = (\<lambda>j. if j = 1 then 1 else 0),
      addresses = (\<lambda>i. if i = 1 then 0x3010 else 0x2000)\<rparr>"

definition demo_kernel :: kernel where
  "demo_kernel =
     \<lparr>ZwProtectVirtualMemory = Some (\<lambda>h a n prot. (STATUS_SUCCESS, a, n, 0x20)),
      MmCopyVirtualMemory = Some (\<lambda>process a bs. STATUS_SUCCESS),
      ExAllocatePool = (\<lambda>buffer n. True),
      PsLookupProcessByProcessId =
        (\<lambda>pid. if pid = 1234 then (STATUS_SUCCESS, 0x10000) else (0xC000000B, 0)),
      PsGetProcessPeb =
        (\<lambda>process. Some \<lparr>LoaderData = (\<lambda>i. Some
           [\<lparr>FullDllName_Length = 10, FullDllName_Buffer = [0x61, 0x2E, 0x64, 0x6C, 0x6C],
             DllBase = 0x400000\<rparr>])\<rparr>),
      image_at = (\<lambda>base. demo_image),
      ObOpenObjectByPointer = (\<lambda>process. (STATUS_SUCCESS, 0x80))\<rparr>"

text \<open>
  Three variants of the example: a kernel that refuses the handle, one whose protection
  call fails, and one whose protection call rounds the base address down to the start
  of the 4 KiB page and the size up to the page, as it reports them back.
\<close>

definition no_handle_kernel :: kernel where
  "no_handle_kernel = demo_kernel\<lparr>ObOpenObjectByPointer := (\<lambda>process. (0xC0000022, 0))\<rparr>"

definition no_protect_kernel :: kernel where
  "no_protect_kernel =
     demo_kernel\<lparr>ZwProtectVirtualMemory := Some (\<lambda>h a n prot. (0xC0000045, a, n, 0))\<rparr>"

definition rounding_kernel :: kernel where
  "rounding_kernel =
     demo_kernel\<lparr>ZwProtectVirtualMemory :=
       Some (\<lambda>h a n prot. (STATUS_SUCCESS, a AND NOT 0xFFF, 0x1000, 0x20))\<rparr>"

definition demo_request :: PatchedModule where
  "demo_request = \<lparr>Pid = 1234, Patch = [0x90, 0x90], FunctionName = [0x66, 0x6F, 0x6F], ModuleName = [0x61]\<rparr>"

section \<open>Facts about the scan\<close>

lemma scan_pids_Found:
  "scan_pids ps v bound i = Found k \<Longrightarrow>
     i \<le> k \<and> k < bound \<and> k < length ps \<and> ps ! k = v \<and> (\<forall>j. i \<le> j \<and> j < k \<longrightarrow> ps ! j \<noteq> v)"
proof (induction ps v bound i rule: scan_pids.induct)
  case (1 ps v bound i)
  show ?case
  proof (cases "i < bound \<and> i < length ps \<and> ps ! i \<noteq> v")
    case True
    with "1.prems" have "scan_pids ps v bound (Suc i) = Found k"
      by (simp add: scan_pids.simps [of ps v bound i])
    with "1.IH" True have IH: "Suc i \<le> k \<and> k < bound \<and> k < length ps \<and> ps ! k = v \<and>
        (\<forall>j. Suc i \<le> j \<and> j < k \<longrightarrow> ps ! j \<noteq> v)"
      by simp
    have "\<forall>j. i \<le> j \<and> j < k \<longrightarrow> ps ! j \<noteq> v"
    proof (intro allI impI)
      fix j assume "i \<le> j \<and> j < k"
      then show "ps ! j \<noteq> v" using IH True by (cases "j = i") auto
    qed
    with IH show ?thesis by simp
  next
    case False
    with "1.prems" show ?thesis
      by (auto simp: scan_pids.simps [of ps v bound i] split: if_splits)
  qed
qed

lemma scan_pids_NotFound:
  "scan_pids ps v bound i = NotFound \<Longrightarrow> (\<forall>j. i \<le> j \<and> j < bound \<longrightarrow> j < length ps \<and> ps ! j \<noteq> v)"
proof (induction ps v bound i rule: scan_pids.induct)
  case (1 ps v bound i)
  show ?case
  proof (cases "i < bound \<and> i < length ps \<and> ps ! i \<noteq> v")
    case True
    with "1.prems" have "scan_pids ps v bound (Suc i) = NotFound"
      by (simp add: scan_pids.simps [of ps v bound i])
    with "1.IH" True have IH: "\<forall>j. Suc i \<le> j \<and> j < bound \<longrightarrow> j < length ps \<and> ps ! j \<noteq> v"
      by simp
    show ?thesis
    proof (intro allI impI)
      fix j assume "i \<le> j \<and> j < bound"
      then show "j < length ps \<and> ps ! j \<noteq> v" using IH True by (cases "j = i") auto
    qed
  next
    case False
    with "1.prems" show ?thesis
      by (auto simp: scan_pids.simps [of ps v bound i] split: if_splits)
  qed
qed

lemma scan_pids_in_bounds:
  "bound \<le> length ps \<Longrightarrow> scan_pids ps v bound i \<noteq> OutOfBounds"
proof (induction ps v bound i rule: scan_pids.induct)
  case (1 ps v bound i)
  then show ?case
    by (simp add: scan_pids.simps [of ps v bound i])
qed

lemma scan_pids_absent:
  assumes "bound \<le> length ps" and "\<forall>j. i \<le> j \<and> j < bound \<longrightarrow> ps ! j \<noteq> v"
  shows "scan_pids ps v bound i = NotFound"
proof (cases "scan_pids ps v bound i")
  case (Found k)
  from scan_pids_Found [OF this] assms(2) show ?thesis by blast
next
  case NotFound
  then show ?thesis .
next
  case OutOfBounds
  with scan_pids_in_bounds [OF assms(1)] show ?thesis by blast
qed

lemma scan_pids_first:
  assumes "k < bound" and "k < length ps" and "ps ! k = v" and "i \<le> k"
    and "\<forall>j. i \<le> j \<and> j < k \<longrightarrow> j < length ps \<and> ps ! j \<noteq> v"
  shows "scan_pids ps v bound i = Found k"
  using assms
proof (induction "k - i" arbitrary: i)
  case 0
  then have "i = k" by simp
  with "0.prems" show ?case by (simp add: scan_pids.simps [of ps v bound k])
next
  case (Suc d)
  then have lt: "i < k" by simp
  with Suc.prems have here: "i < bound" "i < length ps" "ps ! i \<noteq> v" by auto
  have "scan_pids ps v bound (Suc i) = Found k"
    using Suc.hyps(1) [of "Suc i"] Suc.hyps(2) Suc.prems lt by auto
  with here show ?case by (simp add: scan_pids.simps [of ps v bound i])
qed

section \<open>The registry: capacity\<close>

lemma scan_pids_fill:
  assumes "0 \<notin> set xs"
  shows "scan_pids (xs @ replicate m 0) 0 (length xs + m) 0 =
           (if m = 0 then NotFound else Found (length xs))"
proof (cases "m = 0")
  case True
  have "scan_pids xs 0 (length xs) 0 = NotFound"
  proof (rule scan_pids_absent)
    show "length xs \<le> length xs" by simp
    show "\<forall>j. 0 \<le> j \<and> j < length xs \<longrightarrow> xs ! j \<noteq> 0"
      using assms by (metis nth_mem)
  qed
  with True show ?thesis by simp
next
  case False
  have "scan_pids (xs @ replicate m 0) 0 (length xs + m) 0 = Found (length xs)"
  proof (rule scan_pids_first)
    show "length xs < length xs + m" using False by simp
    show "length xs < length (xs @ replicate m 0)" using False by simp
    show "(xs @ replicate m 0) ! length xs = 0" using False by (simp add: nth_append)
    show "0 \<le> length xs" by simp
    show "\<forall>j. 0 \<le> j \<and> j < length xs \<longrightarrow>
            j < length (xs @ replicate m 0) \<and> (xs @ replicate m 0) ! j \<noteq> 0"
      using assms by (auto simp: nth_append) (metis nth_mem)
  qed
  with False show ?thesis by simp
qed

lemma AddProcess_fill:
  assumes "0 \<notin> set xs"
  shows "AddProcess \<lparr>Pids = xs @ replicate m 0, PidsCount = c\<rparr> pid =
     (if m = 0 then (False, \<lparr>Pids = xs, PidsCount = c\<rparr>)
      else (True, \<lparr>Pids = (xs @ [pid]) @ replicate (m - 1) 0, PidsCount = c + 1\<rparr>))"
proof (cases m)
  case 0
  then show ?thesis using scan_pids_fill [OF assms, of 0]
    by (simp add: AddProcess_def MAX_PIDS_def)
next
  case (Suc k)
  then show ?thesis using scan_pids_fill [OF assms, of m]
    by (simp add: AddProcess_def MAX_PIDS_def list_update_append)
qed

lemma add_seq_fill:
  "0 \<notin> set xs \<Longrightarrow> 0 \<notin> set pids \<Longrightarrow>
   add_seq \<lparr>Pids = xs @ replicate m 0, PidsCount = c\<rparr> pids =
     (replicate (min m (length pids)) True @ replicate (length pids - m) False,
      \<lparr>Pids = xs @ take m pids @ replicate (m - length pids) 0,
       PidsCount = c + int (min m (length pids))\<rparr>)"
proof (induction pids arbitrary: xs m c)
  case Nil
  then show ?case by simp
next
  case (Cons pid pids)
  show ?case
  proof (cases m)
    case 0
    have "add_seq \<lparr>Pids = xs @ replicate 0 0, PidsCount = c\<rparr> pids =
      (replicate (min 0 (length pids)) True @ replicate (length pids - 0) False,
      \<lparr>Pids = xs @ take 0 pids @ replicate (0 - length pids) 0,
       PidsCount = c + int (min 0 (length pids))\<rparr>)"
      using Cons.prems by (intro Cons.IH) auto
    with 0 show ?thesis using AddProcess_fill [OF Cons.prems(1), of 0 c pid]
      by simp
  next
    case (Suc k)
    have "add_seq \<lparr>Pids = (xs @ [pid]) @ replicate k 0, PidsCount = c + 1\<rparr> pids =
      (replicate (min k (length pids)) True @ replicate (length pids - k) False,
      \<lparr>Pids = (xs @ [pid]) @ take k pids @ replicate (k - length pids) 0,
       PidsCount = (c + 1) + int (min k (length pids))\<rparr>)"
      using Cons.prems by (intro Cons.IH) auto
    with Suc show ?thesis using AddProcess_fill [OF Cons.prems(1), of m c pid]
      by simp
  qed
qed

lemma add_seq_empty_registry:
  assumes "0 \<notin> set pids"
  shows "add_seq (empty_registry n) pids =
     (replicate (min n (length pids)) True @ replicate (length pids - n) False,
      \<lparr>Pids = take n pids @ replicate (n - length pids) 0,
       PidsCount = int (min n (length pids))\<rparr>)"
  using add_seq_fill [of "[]" pids n 0] assms by (simp add: empty_registry_def)

lemma AddProcess_full:
  assumes "\<forall>i<MAX_PIDS g. Pids g ! i \<noteq> 0"
  shows "AddProcess g pid = (False, g)"
proof -
  have "scan_pids (Pids g) 0 (MAX_PIDS g) 0 = NotFound"
    using assms by (intro scan_pids_absent) (auto simp: MAX_PIDS_def)
  then show ?thesis by (simp add: AddProcess_def)
qed

text \<open>
  Claim C10, as the specification states it, fails for the process id 0, which the
  registry uses as the mark of an empty slot: \<open>AddProcess(0)\<close> finds the first empty slot,
  stores 0 in it, increments \<open>PidsCount\<close> and returns true, and the slot is still empty.
  In a registry of capacity 2, three such calls all return true and leave \<open>PidsCount\<close> at 3.
\<close>

theorem AddProcess_zero_pid_exceeds_capacity:
  "add_seq (empty_registry 2) [0, 0, 0] = ([True, True, True], \<lparr>Pids = [0, 0], PidsCount = 3\<rparr>)"
  by (simp add: empty_registry_def AddProcess_def MAX_PIDS_def scan_pids.simps numeral_2_eq_2)

text \<open>
  Claim C10, amended. Whenever no slot of the registry is empty, \<open>AddProcess\<close> of any pid
  returns false and leaves the \<open>Pids\<close> array and \<open>PidsCount\<close> unchanged. For every sequence
  of \<open>AddProcess\<close> calls with non-zero pids on the initially empty registry of capacity
  \<open>n\<close>: the first \<open>n\<close> calls return true and every later call returns false; the array
  holds the first \<open>n\<close> pids added and \<open>PidsCount\<close> is the number of calls that returned
  true, which is at most \<open>n\<close>; in particular the call number \<open>n + 1\<close> returns false and the
  registry after all the calls is the registry after the first \<open>n\<close> of them.
\<close>

theorem AddProcess_capacity:
  "((\<forall>i<MAX_PIDS g. Pids g ! i \<noteq> 0) \<longrightarrow> AddProcess g pid = (False, g)) \<and>
   (0 \<notin> set pids \<longrightarrow>
      add_seq (empty_registry n) pids =
        (replicate (min n (length pids)) True @ replicate (length pids - n) False,
         \<lparr>Pids = take n pids @ replicate (n - length pids) 0,
          PidsCount = int (min n (length pids))\<rparr>) \<and>
      PidsCount (snd (add_seq (empty_registry n) pids)) \<le> int n \<and>
      MAX_PIDS (snd (add_seq (empty_registry n) pids)) = n \<and>
      (n < length pids \<longrightarrow>
         fst (add_seq (empty_registry n) pids) ! n = False \<and>
         snd (add_seq (empty_registry n) pids) = snd (add_seq (empty_registry n) (take n pids))))"
proof (intro conjI impI)
  assume "\<forall>i<MAX_PIDS g. Pids g ! i \<noteq> 0"
  then show "AddProcess g pid = (False, g)" by (rule AddProcess_full)
next
  assume nz: "0 \<notin> set pids"
  show "add_seq (empty_registry n) pids =
        (replicate (min n (length pids)) True @ replicate (length pids - n) False,
         \<lparr>Pids = take n pids @ replicate (n - length pids) 0,
          PidsCount = int (min n (length pids))\<rparr>)"
    by (rule add_seq_empty_registry [OF nz])
  show "PidsCount (snd (add_seq (empty_registry n) pids)) \<le> int n"
    by (simp add: add_seq_empty_registry [OF nz])
  show "MAX_PIDS (snd (add_seq (empty_registry n) pids)) = n"
    by (simp add: add_seq_empty_registry [OF nz] MAX_PIDS_def)
next
  assume nz: "0 \<notin> set pids" and more: "n < length pids"
  show "fst (add_seq (empty_registry n) pids) ! n = False"
    using more by (simp add: add_seq_empty_registry [OF nz] nth_append)
  have nz': "0 \<notin> set (take n pids)"
    using nz by (auto dest: in_set_takeD)
  show "snd (add_seq (empty_registry n) pids) = snd (add_seq (empty_registry n) (take n pids))"
    using more by (simp add: add_seq_empty_registry [OF nz] add_seq_empty_registry [OF nz'])
qed

theorem AddProcess_capacity_witness:
  "AddProcess \<lparr>Pids = [5, 6], PidsCount = 2\<rparr> 9 = (False, \<lparr>Pids = [5, 6], PidsCount = 2\<rparr>) \<and>
   add_seq (empty_registry 2) [5, 6, 7] = ([True, True, False], \<lparr>Pids = [5, 6], PidsCount = 2\<rparr>)"
proof -
  have full: "\<forall>i<MAX_PIDS \<lparr>Pids = [5, 6], PidsCount = 2\<rparr>. Pids \<lparr>Pids = [5, 6], PidsCount = 2\<rparr> ! i \<noteq> 0"
    by (auto simp: MAX_PIDS_def nth_Cons')
  have nz: "0 \<notin> set [5, 6, 7 :: ULONG]" by simp
  from AddProcess_capacity [of "\<lparr>Pids = [5, 6], PidsCount = 2\<rparr>" 9 "[5, 6, 7]" 2] full nz
  show ?thesis by simp
qed

section \<open>The registry: add, find, remove\<close>

text \<open>
  The last part of claim C1 holds for a pid that is in no slot of the array: when
  \<open>PidsCount\<close> is within the array, \<open>RemoveProcess\<close> returns false and leaves the registry
  as it was.
\<close>

lemma RemoveProcess_absent:
  assumes "pid \<notin> set (Pids g)" and "nat (PidsCount g) \<le> length (Pids g)"
  shows "RemoveProcess g pid = Some (False, g)"
proof -
  have "scan_pids (Pids g) pid (nat (PidsCount g)) 0 = NotFound"
  proof (rule scan_pids_absent [OF assms(2)])
    show "\<forall>j. 0 \<le> j \<and> j < nat (PidsCount g) \<longrightarrow> Pids g ! j \<noteq> pid"
      using assms by (metis le_trans linorder_not_le nth_mem order_less_imp_le)
  qed
  then show ?thesis by (simp add: RemoveProcess_def)
qed

text \<open>
  Claim C1 at a failing input. On the empty registry of any capacity of at least 2,
  the calls \<open>AddProcess(1)\<close>, \<open>AddProcess(2)\<close>, \<open>RemoveProcess(1)\<close> succeed and leave
  \<open>Pids = {0, 2, 0, ...}\<close> with \<open>PidsCount = 1\<close>. \<open>FindProcess(2)\<close> then scans index 0
  only and returns false, although pid 2 was added and never removed.
\<close>

theorem FindProcess_misses_after_remove:
  "run_calls (empty_registry (Suc (Suc n))) [Add 1, Add 2, Remove 1, Find 2] =
     Some ([True, True, True, False], \<lparr>Pids = 0 # 2 # replicate n 0, PidsCount = 1\<rparr>)"
  by (simp add: empty_registry_def AddProcess_def RemoveProcess_def FindProcess_def
      MAX_PIDS_def scan_pids.simps)

section \<open>The access filter\<close>

lemma stripped_rights_steps:
  "((((a AND NOT PROCESS_VM_OPERATION) AND NOT PROCESS_VM_READ) AND NOT PROCESS_CREATE_THREAD)
      AND NOT d) AND NOT PROCESS_TERMINATE = a AND NOT (stripped_rights d)"
  by (simp add: stripped_rights_def bit_eq_iff bit_and_iff bit_not_iff bit_or_iff)

lemma FindProcess_returns:
  "PidsCount g \<le> int (MAX_PIDS g) \<Longrightarrow> FindProcess g pid \<noteq> None"
  using scan_pids_in_bounds [of "nat (PidsCount g)" "Pids g" pid 0]
  by (auto simp: FindProcess_def MAX_PIDS_def split: scan_result.splits)

lemma FindProcess_take:
  assumes "nat (PidsCount g) \<le> length (Pids g)"
  shows "FindProcess g pid = Some (pid \<in> set (take (nat (PidsCount g)) (Pids g)))"
proof (cases "scan_pids (Pids g) pid (nat (PidsCount g)) 0")
  case (Found k)
  from scan_pids_Found [OF this]
  have k: "k < nat (PidsCount g)" "k < length (Pids g)" "Pids g ! k = pid" by simp_all
  then have "take (nat (PidsCount g)) (Pids g) ! k = pid"
    and "k < length (take (nat (PidsCount g)) (Pids g))" by simp_all
  then have "pid \<in> set (take (nat (PidsCount g)) (Pids g))" by (metis nth_mem)
  with Found show ?thesis by (simp add: FindProcess_def)
next
  case NotFound
  from scan_pids_NotFound [OF this]
  have none: "\<forall>j. j < nat (PidsCount g) \<longrightarrow> Pids g ! j \<noteq> pid" by simp
  have "pid \<notin> set (take (nat (PidsCount g)) (Pids g))"
  proof
    assume "pid \<in> set (take (nat (PidsCount g)) (Pids g))"
    then obtain j where "j < length (take (nat (PidsCount g)) (Pids g))"
      and "take (nat (PidsCount g)) (Pids g) ! j = pid" by (auto simp: in_set_conv_nth)
    with none show False by simp
  qed
  with NotFound show ?thesis by (simp add: FindProcess_def)
next
  case OutOfBounds
  with scan_pids_in_bounds [OF assms] show ?thesis by blast
qed

text \<open>
  What the callback does, in terms of \<open>FindProcess\<close>: a kernel-handle request is
  returned untouched; otherwise, when \<open>FindProcess\<close> finds the target pid, the requested
  access loses the bits of \<open>PROCESS_VM_OPERATION\<close>, \<open>PROCESS_VM_READ\<close>,
  \<open>PROCESS_CREATE_THREAD\<close>, \<open>PROCESS_DUP_HANDLE\<close> and \<open>PROCESS_TERMINATE\<close> and keeps every
  other bit as it was, and no other field changes; when \<open>FindProcess\<close> does not find the
  pid the request is returned unmodified. The status is \<open>OB_PREOP_SUCCESS\<close> in each
  case, and the callback returns whenever \<open>PidsCount\<close> is within the array. The pids
  \<open>FindProcess\<close> then finds are those among the first \<open>PidsCount\<close> entries of \<open>Pids\<close>,
  which need not be the pids that were added and not removed.
\<close>

lemma OnPreOpenProcess_by_FindProcess:
  "(KernelHandle Info \<longrightarrow> OnPreOpenProcess g gp d Info = Some (OB_PREOP_SUCCESS, Info)) \<and>
   (\<not> KernelHandle Info \<and> FindProcess g (ucast (gp (Object Info))) = Some True \<longrightarrow>
      OnPreOpenProcess g gp d Info =
        Some (OB_PREOP_SUCCESS,
              Info\<lparr>DesiredAccess := DesiredAccess Info AND NOT (stripped_rights d)\<rparr>)) \<and>
   (\<not> KernelHandle Info \<and> FindProcess g (ucast (gp (Object Info))) = Some False \<longrightarrow>
      OnPreOpenProcess g gp d Info = Some (OB_PREOP_SUCCESS, Info)) \<and>
   (\<forall>n. bit (DesiredAccess Info AND NOT (stripped_rights d)) n \<longleftrightarrow>
      bit (DesiredAccess Info) n \<and> \<not> bit PROCESS_VM_OPERATION n \<and> \<not> bit PROCESS_VM_READ n \<and>
      \<not> bit PROCESS_CREATE_THREAD n \<and> \<not> bit d n \<and> \<not> bit PROCESS_TERMINATE n) \<and>
   (PidsCount g \<le> int (MAX_PIDS g) \<longrightarrow>
      (\<exists>Info'. OnPreOpenProcess g gp d Info = Some (OB_PREOP_SUCCESS, Info')) \<and>
      FindProcess g (ucast (gp (Object Info))) =
        Some (ucast (gp (Object Info)) \<in> set (take (nat (PidsCount g)) (Pids g))))"
proof (intro conjI impI allI)
  assume "KernelHandle Info"
  then show "OnPreOpenProcess g gp d Info = Some (OB_PREOP_SUCCESS, Info)"
    by (simp add: OnPreOpenProcess_def)
next
  assume "\<not> KernelHandle Info \<and> FindProcess g (ucast (gp (Object Info))) = Some True"
  then show "OnPreOpenProcess g gp d Info =
        Some (OB_PREOP_SUCCESS,
              Info\<lparr>DesiredAccess := DesiredAccess Info AND NOT (stripped_rights d)\<rparr>)"
    by (simp add: OnPreOpenProcess_def Let_def stripped_rights_steps)
next
  assume "\<not> KernelHandle Info \<and> FindProcess g (ucast (gp (Object Info))) = Some False"
  then show "OnPreOpenProcess g gp d Info = Some (OB_PREOP_SUCCESS, Info)"
    by (simp add: OnPreOpenProcess_def Let_def)
next
  fix n
  show "bit (DesiredAccess Info AND NOT (stripped_rights d)) n \<longleftrightarrow>
      bit (DesiredAccess Info) n \<and> \<not> bit PROCESS_VM_OPERATION n \<and> \<not> bit PROCESS_VM_READ n \<and>
      \<not> bit PROCESS_CREATE_THREAD n \<and> \<not> bit d n \<and> \<not> bit PROCESS_TERMINATE n"
    by (auto simp: stripped_rights_def bit_and_iff bit_not_iff bit_or_iff
        dest: bit_imp_possible_bit)
next
  assume "PidsCount g \<le> int (MAX_PIDS g)"
  from FindProcess_returns [OF this]
  obtain b where "FindProcess g (ucast (gp (Object Info))) = Some b" by blast
  then show "\<exists>Info'. OnPreOpenProcess g gp d Info = Some (OB_PREOP_SUCCESS, Info')"
    by (cases b) (simp_all add: OnPreOpenProcess_def Let_def)
next
  assume "PidsCount g \<le> int (MAX_PIDS g)"
  then have "nat (PidsCount g) \<le> length (Pids g)" by (simp add: MAX_PIDS_def)
  then show "FindProcess g (ucast (gp (Object Info))) =
        Some (ucast (gp (Object Info)) \<in> set (take (nat (PidsCount g)) (Pids g)))"
    by (rule FindProcess_take)
qed

lemma OnPreOpenProcess_examples:
  "OnPreOpenProcess \<lparr>Pids = [1234, 0], PidsCount = 1\<rparr> (\<lambda>p. p) 0x40
      \<lparr>KernelHandle = True, Object = 1234, DesiredAccess = 0x1FFFFF\<rparr> =
     Some (OB_PREOP_SUCCESS, \<lparr>KernelHandle = True, Object = 1234, DesiredAccess = 0x1FFFFF\<rparr>) \<and>
   OnPreOpenProcess \<lparr>Pids = [1234, 0], PidsCount = 1\<rparr> (\<lambda>p. p) 0x40
      \<lparr>KernelHandle = False, Object = 1234, DesiredAccess = 0x1FFFFF\<rparr> =
     Some (OB_PREOP_SUCCESS, \<lparr>KernelHandle = False, Object = 1234, DesiredAccess = 0x1FFFA4\<rparr>) \<and>
   OnPreOpenProcess \<lparr>Pids = [1234, 0], PidsCount = 1\<rparr> (\<lambda>p. p) 0x40
      \<lparr>KernelHandle = False, Object = 77, DesiredAccess = 0x1FFFFF\<rparr> =
     Some (OB_PREOP_SUCCESS, \<lparr>KernelHandle = False, Object = 77, DesiredAccess = 0x1FFFFF\<rparr>)"
proof -
  let ?g = "\<lparr>Pids = [1234, 0], PidsCount = 1\<rparr>"
  have found: "FindProcess ?g (ucast (1234 :: ptr)) = Some True"
    by (simp add: FindProcess_def scan_pids.simps)
  have absent: "FindProcess ?g (ucast (77 :: ptr)) = Some False"
    by (simp add: FindProcess_def scan_pids.simps)
  have mask: "(0x1FFFFF :: ULONG) AND NOT (stripped_rights 0x40) = 0x1FFFA4"
    by (simp add: stripped_rights_def PROCESS_VM_OPERATION_def PROCESS_VM_READ_def
        PROCESS_CREATE_THREAD_def PROCESS_TERMINATE_def)
  from OnPreOpenProcess_by_FindProcess
         [of "\<lparr>KernelHandle = True, Object = 1234, DesiredAccess = 0x1FFFFF\<rparr>" ?g "\<lambda>p. p" "0x40"]
       OnPreOpenProcess_by_FindProcess
         [of "\<lparr>KernelHandle = False, Object = 1234, DesiredAccess = 0x1FFFFF\<rparr>" ?g "\<lambda>p. p" "0x40"]
       OnPreOpenProcess_by_FindProcess
         [of "\<lparr>KernelHandle = False, Object = 77, DesiredAccess = 0x1FFFFF\<rparr>" ?g "\<lambda>p. p" "0x40"]
       found absent mask
  show ?thesis by simp
qed

text \<open>
  Claim C2 at a failing input. On the empty registry of any capacity of at least 2, the
  calls \<open>AddProcess(1)\<close>, \<open>AddProcess(2)\<close>, \<open>RemoveProcess(1)\<close> succeed and leave
  \<open>Pids = {0, 2, 0, ...}\<close> with \<open>PidsCount = 1\<close>: pid 2 is protected. A request that is
  not a kernel handle, for every access right on the process with pid 2, comes back
  with every right, the five included. The same request on pid 0, which was never
  added, loses the five rights. \<open>PsGetProcessId\<close> is the identity here and
  \<open>PROCESS_DUP_HANDLE\<close> is \<open>0x40\<close>.
\<close>

theorem OnPreOpenProcess_misses_protected_pid:
  "run_calls (empty_registry (Suc (Suc n))) [Add 1, Add 2, Remove 1] =
     Some ([True, True, True], \<lparr>Pids = 0 # 2 # replicate n 0, PidsCount = 1\<rparr>) \<and>
   OnPreOpenProcess \<lparr>Pids = 0 # 2 # replicate n 0, PidsCount = 1\<rparr> (\<lambda>p. p) 0x40
      \<lparr>KernelHandle = False, Object = 2, DesiredAccess = 0x1FFFFF\<rparr> =
     Some (OB_PREOP_SUCCESS, \<lparr>KernelHandle = False, Object = 2, DesiredAccess = 0x1FFFFF\<rparr>) \<and>
   OnPreOpenProcess \<lparr>Pids = 0 # 2 # replicate n 0, PidsCount = 1\<rparr> (\<lambda>p. p) 0x40
      \<lparr>KernelHandle = False, Object = 0, DesiredAccess = 0x1FFFFF\<rparr> =
     Some (OB_PREOP_SUCCESS, \<lparr>KernelHandle = False, Object = 0, DesiredAccess = 0x1FFFA4\<rparr>)"
  by (simp add: empty_registry_def AddProcess_def RemoveProcess_def FindProcess_def
      MAX_PIDS_def scan_pids.simps OnPreOpenProcess_def Let_def PROCESS_VM_OPERATION_def
      PROCESS_VM_READ_def PROCESS_CREATE_THREAD_def PROCESS_TERMINATE_def)

section \<open>Loads and stores\<close>

lemma load_store_UINT64:
  assumes "length bs = 8"
  shows "load_UINT64 (store_UINT64 mem a bs) a = bs"
proof (rule nth_equalityI)
  show "length (load_UINT64 (store_UINT64 mem a bs) a) = length bs"
    using assms by (simp add: load_UINT64_def)
next
  fix i assume "i < length (load_UINT64 (store_UINT64 mem a bs) a)"
  then have i: "i < 8" by (simp add: load_UINT64_def)
  then have "unat (of_nat i :: 64 word) = i"
    by (simp add: unat_of_nat)
  with i show "load_UINT64 (store_UINT64 mem a bs) a ! i = bs ! i"
    by (simp add: load_UINT64_def store_UINT64_def)
qed

lemma length_load_UINT64: "length (load_UINT64 mem a) = 8"
  by (simp add: load_UINT64_def)

lemma store_UINT64_other:
  "8 \<le> unat (x - a) \<Longrightarrow> store_UINT64 mem a bs x = mem x"
  by (simp add: store_UINT64_def)

lemma ptr_of_bytes_of_ptr: "ptr_of_bytes (bytes_of_ptr v) = v"
proof (rule bit_word_eqI)
  fix n assume n: "n < LENGTH(64)"
  then have d: "n div 8 < 8" by simp
  have "bit (ptr_of_bytes (bytes_of_ptr v)) n \<longleftrightarrow>
      bit (bytes_of_ptr v ! (n div 8)) (n mod 8)"
    using n d
    by (simp add: ptr_of_bytes_def word_rcat_def bit_word_of_int_iff
        bit_horner_sum_uint_exp_iff [where 'a = 8, simplified] bytes_of_ptr_def)
  also have "\<dots> \<longleftrightarrow> bit v (8 * (n div 8) + n mod 8)"
    using d by (simp add: bytes_of_ptr_def bit_ucast_iff bit_drop_bit_eq)
  also have "8 * (n div 8) + n mod 8 = n" by simp
  finally show "bit (ptr_of_bytes (bytes_of_ptr v)) n = bit v n" .
qed

text \<open>Two eight-byte cells that share no byte.\<close>

lemma cell_offset:
  fixes a b :: ptr
  assumes "8 \<le> unat (b - a)" and "8 \<le> unat (a - b)" and "i < 8"
  shows "8 \<le> unat (b + of_nat i - a)"
proof -
  define j :: ptr where "j = of_nat i"
  have "unat j < 8" using assms(3) by (simp add: j_def unat_of_nat)
  with assms(1,2) have "8 \<le> unat (b + j - a)" by unat_arith
  then show ?thesis by (simp add: j_def)
qed

lemma length_bytes_of_ptr: "length (bytes_of_ptr v) = 8"
  by (simp add: bytes_of_ptr_def)

lemma read_write_same: "read_ptr (write_ptr mem a v) a = v"
  by (simp add: read_ptr_def write_ptr_def load_store_UINT64 length_bytes_of_ptr
      ptr_of_bytes_of_ptr)

lemma read_write_other:
  assumes "8 \<le> unat (b - a)" and "8 \<le> unat (a - b)"
  shows "read_ptr (write_ptr mem a v) b = read_ptr mem b"
proof -
  have "load_UINT64 (write_ptr mem a v) b = load_UINT64 mem b"
    unfolding load_UINT64_def
  proof (rule map_cong [OF refl])
    fix i assume "i \<in> set [0..<8]"
    then have "i < 8" by simp
    from cell_offset [OF assms this]
    show "write_ptr mem a v (b + of_nat i) = mem (b + of_nat i)"
      by (simp add: write_ptr_def store_UINT64_def)
  qed
  then show ?thesis by (simp add: read_ptr_def)
qed

lemma write_ptr_other: "8 \<le> unat (x - a) \<Longrightarrow> write_ptr mem a v x = mem x"
  by (simp add: write_ptr_def store_UINT64_def)

section \<open>Unlinking a node\<close>

lemma own_fields:
  fixes x :: ptr
  shows "8 \<le> unat (x + 8 - x)" and "8 \<le> unat (x - (x + 8))"
  by simp_all

lemma separated_fields:
  fixes x y :: ptr
  assumes "16 \<le> unat (y - x)" and "16 \<le> unat (x - y)"
  shows "8 \<le> unat (y - x)" and "8 \<le> unat (x - y)"
    and "8 \<le> unat (y + 8 - x)" and "8 \<le> unat (x - (y + 8))"
    and "8 \<le> unat (y - (x + 8))" and "8 \<le> unat (x + 8 - y)"
    and "8 \<le> unat (y + 8 - (x + 8))" and "8 \<le> unat (x + 8 - (y + 8))"
  using assms by unat_arith+

lemma separatedD:
  "separated ns \<Longrightarrow> x \<in> set ns \<Longrightarrow> y \<in> set ns \<Longrightarrow> x \<noteq> y \<Longrightarrow>
     16 \<le> unat (y - x) \<and> 16 \<le> unat (x - y)"
  by (simp add: separated_def)

lemma read_other_field:
  assumes sep: "separated ns" and a: "a \<in> set ns" and x: "x \<in> set ns"
  shows "read_ptr (write_ptr mem (a + 8) v) x = read_ptr mem x"
    and "read_ptr (write_ptr mem a v) (x + 8) = read_ptr mem (x + 8)"
proof -
  have "8 \<le> unat (x - (a + 8)) \<and> 8 \<le> unat (a + 8 - x) \<and>
        8 \<le> unat (x + 8 - a) \<and> 8 \<le> unat (a - (x + 8))"
  proof (cases "x = a")
    case True
    then show ?thesis by simp
  next
    case False
    from separatedD [OF sep x a False] show ?thesis
      by (simp add: separated_fields)
  qed
  then show "read_ptr (write_ptr mem (a + 8) v) x = read_ptr mem x"
    and "read_ptr (write_ptr mem a v) (x + 8) = read_ptr mem (x + 8)"
    by (simp_all add: read_write_other)
qed

lemma read_other_node:
  assumes sep: "separated ns" and a: "a \<in> set ns" and x: "x \<in> set ns" and ne: "x \<noteq> a"
  shows "read_ptr (write_ptr mem a v) x = read_ptr mem x"
    and "read_ptr (write_ptr mem (a + 8) v) (x + 8) = read_ptr mem (x + 8)"
  using separatedD [OF sep x a ne]
  by (simp_all add: read_write_other separated_fields)

lemma RemoveProcessLinks_Flink:
  assumes sep: "separated ns" and c: "c \<in> set ns"
    and p: "Blink (LIST_ENTRY_at m c) \<in> set ns"
    and n: "Flink (LIST_ENTRY_at m c) \<in> set ns"
    and x: "x \<in> set ns"
  shows "Flink (LIST_ENTRY_at (RemoveProcessLinks m c) x) =
           (if x = c then c
            else if x = Blink (LIST_ENTRY_at m c) then Flink (LIST_ENTRY_at m c)
            else Flink (LIST_ENTRY_at m x))"
proof -
  define previous where "previous = read_ptr m (c + 8)"
  define nxt where "nxt = read_ptr m c"
  from p n have p': "previous \<in> set ns" and n': "nxt \<in> set ns"
    by (simp_all add: previous_def nxt_def LIST_ENTRY_at_def)
  let ?m1 = "write_ptr m previous nxt"
  let ?m2 = "write_ptr ?m1 (nxt + 8) previous"
  let ?m3 = "write_ptr ?m2 (c + 8) c"
  let ?m4 = "write_ptr ?m3 c c"
  have run: "RemoveProcessLinks m c = ?m4"
    by (simp add: RemoveProcessLinks_def LIST_ENTRY_at_def Let_def previous_def nxt_def)
  have "read_ptr ?m4 x = (if x = c then c else if x = previous then nxt else read_ptr m x)"
  proof (cases "x = c")
    case True
    then show ?thesis by (simp add: read_write_same)
  next
    case False
    have "read_ptr ?m4 x = read_ptr ?m3 x"
      by (rule read_other_node(1) [OF sep c x False])
    also have "\<dots> = read_ptr ?m2 x"
      by (rule read_other_field(1) [OF sep c x])
    also have "\<dots> = read_ptr ?m1 x"
      by (rule read_other_field(1) [OF sep n' x])
    also have "\<dots> = (if x = previous then nxt else read_ptr m x)"
    proof (cases "x = previous")
      case True
      then show ?thesis by (simp add: read_write_same)
    next
      case ne: False
      then show ?thesis by (simp add: read_other_node(1) [OF sep p' x ne])
    qed
    finally show ?thesis using False by simp
  qed
  then show ?thesis
    by (simp add: run LIST_ENTRY_at_def previous_def nxt_def)
qed

lemma RemoveProcessLinks_Blink:
  assumes sep: "separated ns" and c: "c \<in> set ns"
    and p: "Blink (LIST_ENTRY_at m c) \<in> set ns"
    and n: "Flink (LIST_ENTRY_at m c) \<in> set ns"
    and x: "x \<in> set ns"
  shows "Blink (LIST_ENTRY_at (RemoveProcessLinks m c) x) =
           (if x = c then c
            else if x = Flink (LIST_ENTRY_at m c) then Blink (LIST_ENTRY_at m c)
            else Blink (LIST_ENTRY_at m x))"
proof -
  define previous where "previous = read_ptr m (c + 8)"
  define nxt where "nxt = read_ptr m c"
  from p n have p': "previous \<in> set ns" and n': "nxt \<in> set ns"
    by (simp_all add: previous_def nxt_def LIST_ENTRY_at_def)
  let ?m1 = "write_ptr m previous nxt"
  let ?m2 = "write_ptr ?m1 (nxt + 8) previous"
  let ?m3 = "write_ptr ?m2 (c + 8) c"
  let ?m4 = "write_ptr ?m3 c c"
  have run: "RemoveProcessLinks m c = ?m4"
    by (simp add: RemoveProcessLinks_def LIST_ENTRY_at_def Let_def previous_def nxt_def)
  have "read_ptr ?m4 (x + 8) =
          (if x = c then c else if x = nxt then previous else read_ptr m (x + 8))"
  proof (cases "x = c")
    case True
    have "read_ptr ?m4 (c + 8) = read_ptr ?m3 (c + 8)"
      by (rule read_other_field(2) [OF sep c c])
    then show ?thesis using True by (simp add: read_write_same)
  next
    case False
    have "read_ptr ?m4 (x + 8) = read_ptr ?m3 (x + 8)"
      by (rule read_other_field(2) [OF sep c x])
    also have "\<dots> = read_ptr ?m2 (x + 8)"
      by (rule read_other_node(2) [OF sep c x False])
    also have "\<dots> = (if x = nxt then previous else read_ptr m (x + 8))"
    proof (cases "x = nxt")
      case True
      then show ?thesis by (simp add: read_write_same)
    next
      case ne: False
      have "read_ptr ?m2 (x + 8) = read_ptr ?m1 (x + 8)"
        by (rule read_other_node(2) [OF sep n' x ne])
      also have "\<dots> = read_ptr m (x + 8)"
        by (rule read_other_field(2) [OF sep p' x])
      finally show ?thesis using ne by simp
    qed
    finally show ?thesis using False by simp
  qed
  then show ?thesis
    by (simp add: run LIST_ENTRY_at_def previous_def nxt_def)
qed

lemma RemoveProcessLinks_other:
  assumes "8 \<le> unat (x - Blink (LIST_ENTRY_at m c))"
    and "8 \<le> unat (x - (Flink (LIST_ENTRY_at m c) + 8))"
    and "16 \<le> unat (x - c)"
  shows "RemoveProcessLinks m c x = m x"
proof -
  from assms(3) have "8 \<le> unat (x - c)" and "8 \<le> unat (x - (c + 8))"
    by unat_arith+
  with assms(1,2) show ?thesis
    by (simp add: RemoveProcessLinks_def Let_def write_ptr_other)
qed

lemma chain_append:
  "chain l a (xs @ y # ys) z = (chain l a xs y \<and> chain l y ys z)"
  by (induction xs arbitrary: a) auto

lemma chain_last:
  "chain l a bs z \<Longrightarrow> Flink (l (last (a # bs))) = z \<and> Blink (l z) = last (a # bs)"
  by (induction bs arbitrary: a) auto

lemma chain_links_in:
  "chain l a bs z \<Longrightarrow>
     (\<forall>x \<in> set (a # bs). Flink (l x) \<in> set (bs @ [z])) \<and>
     (\<forall>x \<in> set (bs @ [z]). Blink (l x) \<in> set (a # bs))"
  by (induction bs arbitrary: a) auto

lemma chain_cong:
  assumes "\<forall>x \<in> set (a # bs). Flink (l' x) = Flink (l x)"
    and "\<forall>x \<in> set (bs @ [z]). Blink (l' x) = Blink (l x)"
  shows "chain l' a bs z = chain l a bs z"
  using assms by (induction bs arbitrary: a) auto

lemma chain_retarget:
  assumes "chain l a bs c"
    and "\<forall>x \<in> set (butlast (a # bs)). Flink (l' x) = Flink (l x)"
    and "\<forall>x \<in> set bs. Blink (l' x) = Blink (l x)"
    and "Flink (l' (last (a # bs))) = z"
    and "Blink (l' z) = last (a # bs)"
  shows "chain l' a bs z"
  using assms
proof (induction bs arbitrary: a)
  case Nil
  then show ?case by simp
next
  case (Cons b bs)
  have "chain l' b bs z"
  proof (rule Cons.IH)
    show "chain l b bs c" using Cons.prems(1) by simp
    show "\<forall>x\<in>set (butlast (b # bs)). Flink (l' x) = Flink (l x)"
      using Cons.prems(2) by simp
    show "\<forall>x\<in>set bs. Blink (l' x) = Blink (l x)" using Cons.prems(3) by simp
    show "Flink (l' (last (b # bs))) = z" using Cons.prems(4) by simp
    show "Blink (l' z) = last (b # bs)" using Cons.prems(5) by simp
  qed
  moreover have "Flink (l' a) = b" using Cons.prems(1,2) by simp
  moreover have "Blink (l' b) = a" using Cons.prems(1,3) by simp
  ultimately show ?case by simp
qed

lemma last_notin_butlast:
  "distinct xs \<Longrightarrow> x \<in> set (butlast xs) \<Longrightarrow> x \<noteq> last xs"
  by (cases xs rule: rev_cases) auto

text \<open>
  The two list surgeries, on any structures \<open>l'\<close> that differ from \<open>l\<close> on the nodes of
  the ring the way the four stores make them differ: the unlinked node is the head of
  the list, or it is further down.
\<close>

lemma unlink_head:
  assumes d: "distinct (a # b # bs)" and ch: "chain l a (b # bs) a"
    and F: "\<And>x. x \<in> set (a # b # bs) \<Longrightarrow> Flink (l' x) =
              (if x = a then a else if x = Blink (l a) then Flink (l a) else Flink (l x))"
    and B: "\<And>x. x \<in> set (a # b # bs) \<Longrightarrow> Blink (l' x) =
              (if x = a then a else if x = Flink (l a) then Blink (l a) else Blink (l x))"
  shows "chain l' b bs b"
proof -
  from ch have n: "Flink (l a) = b" and seg: "chain l b bs a" by simp_all
  from chain_last [OF ch] have p: "Blink (l a) = last (b # bs)" by simp
  have p_in: "last (b # bs) \<in> set (b # bs)" by (rule last_in_set) simp
  have pa: "last (b # bs) \<noteq> a" using d p_in by auto
  show "chain l' b bs b"
  proof (rule chain_retarget [OF seg])
    show "\<forall>x\<in>set (butlast (b # bs)). Flink (l' x) = Flink (l x)"
    proof
      fix x assume x: "x \<in> set (butlast (b # bs))"
      then have xin: "x \<in> set (b # bs)" by (rule in_set_butlastD)
      then have "x \<noteq> a" using d by auto
      moreover have "x \<noteq> Blink (l a)"
        using last_notin_butlast [OF _ x] d p by simp
      ultimately show "Flink (l' x) = Flink (l x)"
        using F [of x] xin by simp
    qed
    show "\<forall>x\<in>set bs. Blink (l' x) = Blink (l x)"
    proof
      fix x assume "x \<in> set bs"
      with d n have "x \<noteq> a" "x \<noteq> Flink (l a)" "x \<in> set (a # b # bs)" by auto
      then show "Blink (l' x) = Blink (l x)" using B [of x] by simp
    qed
    show "Flink (l' (last (b # bs))) = b"
      using F [of "last (b # bs)"] p_in pa p n by simp
    show "Blink (l' b) = last (b # bs)"
      using B [of b] d p n by auto
  qed
qed

lemma unlink_inner:
  assumes d: "distinct (a # xs @ c # ys)" and ch: "chain l a (xs @ c # ys) a"
    and F: "\<And>x. x \<in> set (a # xs @ c # ys) \<Longrightarrow> Flink (l' x) =
              (if x = c then c else if x = Blink (l c) then Flink (l c) else Flink (l x))"
    and B: "\<And>x. x \<in> set (a # xs @ c # ys) \<Longrightarrow> Blink (l' x) =
              (if x = c then c else if x = Flink (l c) then Blink (l c) else Blink (l x))"
  shows "chain l' a (xs @ ys) a"
proof -
  from ch have seg1: "chain l a xs c" and seg2: "chain l c ys a"
    by (simp_all add: chain_append)
  from chain_last [OF seg1] have p: "Blink (l c) = last (a # xs)" by simp
  have p_in: "Blink (l c) \<in> set (a # xs)" unfolding p by (rule last_in_set) simp
  have pc: "Blink (l c) \<noteq> c" using d p_in by auto
  have n: "Flink (l c) = hd (ys @ [a])" using seg2 by (cases ys) simp_all
  have n_in: "Flink (l c) \<in> set (ys @ [a])" unfolding n by (rule hd_in_set) simp
  have nc: "Flink (l c) \<noteq> c" using d n_in by auto
  have fl1: "\<forall>x\<in>set (butlast (a # xs)). Flink (l' x) = Flink (l x)"
  proof
    fix x assume x: "x \<in> set (butlast (a # xs))"
    then have xin: "x \<in> set (a # xs)" by (rule in_set_butlastD)
    then have "x \<noteq> c" using d by auto
    moreover have "x \<noteq> Blink (l c)"
      using last_notin_butlast [OF _ x] d p by simp
    ultimately show "Flink (l' x) = Flink (l x)"
      using F [of x] xin by auto
  qed
  have last_in: "last (a # xs) \<in> set (a # xs @ c # ys)"
    using p p_in by auto
  have fl_last: "Flink (l' (last (a # xs))) = Flink (l c)"
    using F [OF last_in] pc p by simp
  show ?thesis
  proof (cases ys)
    case Nil
    with n have na: "Flink (l c) = a" by simp
    have "chain l' a xs a"
    proof (rule chain_retarget [OF seg1 fl1])
      show "\<forall>x\<in>set xs. Blink (l' x) = Blink (l x)"
      proof
        fix x assume "x \<in> set xs"
        with d na have "x \<noteq> c" "x \<noteq> Flink (l c)" "x \<in> set (a # xs @ c # ys)" by auto
        then show "Blink (l' x) = Blink (l x)" using B [of x] by simp
      qed
      show "Flink (l' (last (a # xs))) = a" using fl_last na by simp
      show "Blink (l' a) = last (a # xs)"
        using B [of a] d p na by auto
    qed
    with Nil show ?thesis by simp
  next
    case (Cons y ys')
    with n have ny: "Flink (l c) = y" by simp
    from seg2 Cons have seg3: "chain l y ys' a" by simp
    have "chain l' a xs y"
    proof (rule chain_retarget [OF seg1 fl1])
      show "\<forall>x\<in>set xs. Blink (l' x) = Blink (l x)"
      proof
        fix x assume "x \<in> set xs"
        with d ny Cons have "x \<noteq> c" "x \<noteq> Flink (l c)" "x \<in> set (a # xs @ c # ys)" by auto
        then show "Blink (l' x) = Blink (l x)" using B [of x] by simp
      qed
      show "Flink (l' (last (a # xs))) = y" using fl_last ny by simp
      show "Blink (l' y) = last (a # xs)"
        using B [of y] d Cons p ny by auto
    qed
    moreover have "chain l' y ys' a = chain l y ys' a"
    proof (rule chain_cong)
      show "\<forall>x\<in>set (y # ys'). Flink (l' x) = Flink (l x)"
      proof
        fix x assume "x \<in> set (y # ys')"
        with d Cons p_in have "x \<noteq> c" "x \<noteq> Blink (l c)" "x \<in> set (a # xs @ c # ys)"
          by auto
        then show "Flink (l' x) = Flink (l x)" using F [of x] by simp
      qed
      show "\<forall>x\<in>set (ys' @ [a]). Blink (l' x) = Blink (l x)"
      proof
        fix x assume "x \<in> set (ys' @ [a])"
        with d Cons ny have "x \<noteq> c" "x \<noteq> Flink (l c)" "x \<in> set (a # xs @ c # ys)"
          by auto
        then show "Blink (l' x) = Blink (l x)" using B [of x] by simp
      qed
    qed
    ultimately show ?thesis using Cons seg3 by (simp add: chain_append)
  qed
qed

lemma circular_list_neighbours:
  assumes circ: "circular_list m ns" and c: "c \<in> set ns"
  shows "Blink (LIST_ENTRY_at m c) \<in> set ns \<and> Flink (LIST_ENTRY_at m c) \<in> set ns"
proof -
  obtain a as where ns: "ns = a # as" using circ by (cases ns) (auto simp: circular_list_def)
  with circ have ch: "chain (LIST_ENTRY_at m) a as a" by (simp add: circular_list_def)
  from chain_links_in [OF ch] c ns show ?thesis by auto
qed

lemma circular_list_unlink:
  assumes circ: "circular_list m ns" and two: "2 \<le> length ns" and c: "c \<in> set ns"
    and F: "\<And>x. x \<in> set ns \<Longrightarrow> Flink (LIST_ENTRY_at m' x) =
              (if x = c then c else if x = Blink (LIST_ENTRY_at m c) then Flink (LIST_ENTRY_at m c)
               else Flink (LIST_ENTRY_at m x))"
    and B: "\<And>x. x \<in> set ns \<Longrightarrow> Blink (LIST_ENTRY_at m' x) =
              (if x = c then c else if x = Flink (LIST_ENTRY_at m c) then Blink (LIST_ENTRY_at m c)
               else Blink (LIST_ENTRY_at m x))"
  shows "circular_list m' (remove1 c ns)"
proof -
  obtain a as where ns: "ns = a # as" using circ by (cases ns) (auto simp: circular_list_def)
  with circ have d: "distinct (a # as)" and ch: "chain (LIST_ENTRY_at m) a as a"
    by (simp_all add: circular_list_def)
  show ?thesis
  proof (cases "c = a")
    case True
    from two ns obtain b bs where as: "as = b # bs" by (cases as) auto
    have "chain (LIST_ENTRY_at m') b bs b"
    proof (rule unlink_head [where l = "LIST_ENTRY_at m" and a = a])
      show "distinct (a # b # bs)" using d as by simp
      show "chain (LIST_ENTRY_at m) a (b # bs) a" using ch as by simp
    qed (use F B True ns as in auto)
    with d as True show ?thesis by (simp add: ns circular_list_def)
  next
    case False
    with c ns have "c \<in> set as" by simp
    then obtain xs ys where as: "as = xs @ c # ys" and cx: "c \<notin> set xs"
      by (auto dest: split_list_first)
    have r: "remove1 c ns = a # xs @ ys"
      using False cx by (simp add: ns as remove1_append)
    have "chain (LIST_ENTRY_at m') a (xs @ ys) a"
    proof (rule unlink_inner [where l = "LIST_ENTRY_at m" and c = c])
      show "distinct (a # xs @ c # ys)" using d as by simp
      show "chain (LIST_ENTRY_at m) a (xs @ c # ys) a" using ch as by simp
    qed (use F B ns as in auto)
    moreover have "distinct (a # xs @ ys)" using d as by auto
    ultimately show ?thesis by (simp add: r circular_list_def)
  qed
qed

lemma LIST_ENTRY_at_write_same: "LIST_ENTRY_at (write_LIST_ENTRY mem a e) a = e"
proof -
  have "read_ptr (write_ptr (write_ptr mem a (Flink e)) (a + 8) (Blink e)) a =
          read_ptr (write_ptr mem a (Flink e)) a"
    by (rule read_write_other) simp_all
  then show ?thesis
    by (simp add: LIST_ENTRY_at_def write_LIST_ENTRY_def read_write_same)
qed

lemma LIST_ENTRY_at_write_other:
  assumes "16 \<le> unat (b - a)" and "16 \<le> unat (a - b)"
  shows "LIST_ENTRY_at (write_LIST_ENTRY mem a e) b = LIST_ENTRY_at mem b"
  using separated_fields [OF assms]
  by (simp add: LIST_ENTRY_at_def write_LIST_ENTRY_def read_write_other)

lemma ring3_entries:
  "LIST_ENTRY_at ring3 0x1450 = \<lparr>Flink = 0x2450, Blink = 0x3450\<rparr>"
  "LIST_ENTRY_at ring3 0x2450 = \<lparr>Flink = 0x3450, Blink = 0x1450\<rparr>"
  "LIST_ENTRY_at ring3 0x3450 = \<lparr>Flink = 0x1450, Blink = 0x2450\<rparr>"
  by (simp_all add: ring3_def LIST_ENTRY_at_write_same LIST_ENTRY_at_write_other)

lemma ring3_circular: "circular_list ring3 [0x1450, 0x2450, 0x3450]"
  by (simp add: circular_list_def ring3_entries)

lemma overlapping_ring_cells:
  "read_ptr overlapping_ring 0x5000 = 0x5008"
  "read_ptr overlapping_ring 0x5008 = 0x6000"
  "read_ptr overlapping_ring 0x5010 = 0x5000"
  "read_ptr overlapping_ring 0x6000 = 0x5000"
  "read_ptr overlapping_ring 0x6008 = 0x5008"
  by (simp_all add: overlapping_ring_def read_write_same read_write_other)

lemma overlapping_ring_unlinked:
  "read_ptr (RemoveProcessLinks overlapping_ring 0x5008) 0x5008 = 0x5008"
  by (simp add: RemoveProcessLinks_def LIST_ENTRY_at_def Let_def overlapping_ring_cells
      read_write_same read_write_other)

text \<open>
  Claim C7, as the specification states it, fails on a ring whose structures overlap.
  The structures at \<open>0x5000\<close>, \<open>0x5008\<close> and \<open>0x6000\<close> form a circular doubly linked list
  of three nodes; unlinking the node at \<open>0x5008\<close> stores its own address in its
  \<open>Flink\<close>, which is also the \<open>Blink\<close> of the node at \<open>0x5000\<close>, so the two other nodes
  are not left as a circular list.
\<close>

theorem RemoveProcessLinks_breaks_overlapping_ring:
  "circular_list overlapping_ring [0x5000, 0x5008, 0x6000] \<and>
   remove1 0x5008 [0x5000, 0x5008, 0x6000 :: ptr] = [0x5000, 0x6000] \<and>
   Blink (LIST_ENTRY_at (RemoveProcessLinks overlapping_ring 0x5008) 0x5000) = 0x5008 \<and>
   \<not> circular_list (RemoveProcessLinks overlapping_ring 0x5008) [0x5000, 0x6000]"
  by (simp add: circular_list_def LIST_ENTRY_at_def overlapping_ring_cells
      overlapping_ring_unlinked)

text \<open>
  Claim C7, amended. For every circular doubly linked list \<open>ns\<close> of at least two distinct
  nodes whose structures do not overlap, and every node \<open>c\<close> of it, \<open>RemoveProcessLinks\<close>
  on \<open>c\<close> sets the forward link of the previous node to the next node and the backward
  link of the next node to the previous node; what remains is a circular list of the
  other nodes in their original order, one node shorter; the forward and backward links
  of \<open>c\<close> both point to \<open>c\<close>; every other node of the list keeps its links; and no byte
  is written outside the \<open>Flink\<close> of the previous node, the \<open>Blink\<close> of the next node
  and the structure of \<open>c\<close>.
\<close>

theorem RemoveProcessLinks_unlinks:
  assumes circ: "circular_list m ns" and sep: "separated ns"
    and two: "2 \<le> length ns" and c: "c \<in> set ns"
  shows "Flink (LIST_ENTRY_at (RemoveProcessLinks m c) (Blink (LIST_ENTRY_at m c))) =
           Flink (LIST_ENTRY_at m c) \<and>
         Blink (LIST_ENTRY_at (RemoveProcessLinks m c) (Flink (LIST_ENTRY_at m c))) =
           Blink (LIST_ENTRY_at m c) \<and>
         circular_list (RemoveProcessLinks m c) (remove1 c ns) \<and>
         length (remove1 c ns) = length ns - 1 \<and>
         Flink (LIST_ENTRY_at (RemoveProcessLinks m c) c) = c \<and>
         Blink (LIST_ENTRY_at (RemoveProcessLinks m c) c) = c \<and>
         (\<forall>x \<in> set ns. x \<noteq> c \<and> x \<noteq> Blink (LIST_ENTRY_at m c) \<and> x \<noteq> Flink (LIST_ENTRY_at m c) \<longrightarrow>
            LIST_ENTRY_at (RemoveProcessLinks m c) x = LIST_ENTRY_at m x) \<and>
         (\<forall>x. 8 \<le> unat (x - Blink (LIST_ENTRY_at m c)) \<and>
              8 \<le> unat (x - (Flink (LIST_ENTRY_at m c) + 8)) \<and> 16 \<le> unat (x - c) \<longrightarrow>
            RemoveProcessLinks m c x = m x)"
proof -
  let ?l = "LIST_ENTRY_at m" and ?l' = "LIST_ENTRY_at (RemoveProcessLinks m c)"
  from circular_list_neighbours [OF circ c]
  have p: "Blink (?l c) \<in> set ns" and n: "Flink (?l c) \<in> set ns" by simp_all
  note F = RemoveProcessLinks_Flink [OF sep c p n]
  note B = RemoveProcessLinks_Blink [OF sep c p n]
  have ring: "circular_list (RemoveProcessLinks m c) (remove1 c ns)"
    by (rule circular_list_unlink [OF circ two c F B])
  obtain a as where ns: "ns = a # as" using circ by (cases ns) (auto simp: circular_list_def)
  with circ have d: "distinct (a # as)" and ch: "chain ?l a as a"
    by (simp_all add: circular_list_def)
  have pc: "Blink (?l c) \<noteq> c \<and> Flink (?l c) \<noteq> c"
  proof (cases "c = a")
    case True
    from two ns obtain b bs where as: "as = b # bs" by (cases as) auto
    from chain_last [OF ch] have "Blink (?l a) = last (b # bs)" by (simp add: as)
    moreover have "last (b # bs) \<in> set (b # bs)" by (rule last_in_set) simp
    moreover have "Flink (?l a) = b" using ch as by simp
    ultimately show ?thesis using d as True by auto
  next
    case False
    with c ns have "c \<in> set as" by simp
    then obtain xs ys where as: "as = xs @ c # ys" by (auto dest: split_list)
    from ch as have seg1: "chain ?l a xs c" and seg2: "chain ?l c ys a"
      by (simp_all add: chain_append)
    from chain_last [OF seg1] have "Blink (?l c) = last (a # xs)" by simp
    moreover have "last (a # xs) \<in> set (a # xs)" by (rule last_in_set) simp
    moreover have "Flink (?l c) = hd (ys @ [a])" using seg2 by (cases ys) simp_all
    moreover have "hd (ys @ [a]) \<in> set (ys @ [a])" by (rule hd_in_set) simp
    ultimately show ?thesis using d as by auto
  qed
  have len: "length (remove1 c ns) = length ns - 1"
    using c by (simp add: length_remove1)
  have others: "\<forall>x \<in> set ns. x \<noteq> c \<and> x \<noteq> Blink (?l c) \<and> x \<noteq> Flink (?l c) \<longrightarrow> ?l' x = ?l x"
  proof (intro ballI impI)
    fix x assume "x \<in> set ns" and "x \<noteq> c \<and> x \<noteq> Blink (?l c) \<and> x \<noteq> Flink (?l c)"
    then have "Flink (?l' x) = Flink (?l x)" and "Blink (?l' x) = Blink (?l x)"
      using F [of x] B [of x] by simp_all
    then show "?l' x = ?l x" by simp
  qed
  have bytes: "\<forall>x. 8 \<le> unat (x - Blink (?l c)) \<and> 8 \<le> unat (x - (Flink (?l c) + 8)) \<and>
      16 \<le> unat (x - c) \<longrightarrow> RemoveProcessLinks m c x = m x"
    by (simp add: RemoveProcessLinks_other)
  show ?thesis
    using ring len pc others bytes F [OF p] F [OF c] B [OF n] B [OF c]
    by simp
qed

theorem RemoveProcessLinks_unlinks_witness:
  "circular_list ring3 [0x1450, 0x2450, 0x3450] \<and>
   separated [0x1450, 0x2450, 0x3450] \<and>
   circular_list (RemoveProcessLinks ring3 0x2450) [0x1450, 0x3450] \<and>
   Flink (LIST_ENTRY_at (RemoveProcessLinks ring3 0x2450) 0x1450) = 0x3450 \<and>
   Blink (LIST_ENTRY_at (RemoveProcessLinks ring3 0x2450) 0x3450) = 0x1450 \<and>
   Flink (LIST_ENTRY_at (RemoveProcessLinks ring3 0x2450) 0x2450) = 0x2450 \<and>
   Blink (LIST_ENTRY_at (RemoveProcessLinks ring3 0x2450) 0x2450) = 0x2450"
proof -
  have ring: "circular_list ring3 [0x1450, 0x2450, 0x3450]"
    by (rule ring3_circular)
  have sep: "separated [0x1450, 0x2450, 0x3450]"
    by (simp add: separated_def)
  have two: "2 \<le> length [0x1450, 0x2450, 0x3450 :: ptr]" by simp
  have mem: "0x2450 \<in> set [0x1450, 0x2450, 0x3450 :: ptr]" by simp
  from RemoveProcessLinks_unlinks [OF ring sep two mem] ring sep
  show ?thesis by (simp add: ring3_entries)
qed

section \<open>Hiding a process that is not on the list\<close>



lemma GetActiveProcessLinksOffset_failed:
  "\<not> NT_SUCCESS (fst v) \<Longrightarrow> GetActiveProcessLinksOffset v = STATUS_UNSUCCESSFUL"
  by (cases v) (simp add: GetActiveProcessLinksOffset_def)




section \<open>The privilege elevator\<close>

text \<open>
  Claim C9. For every target pid, \<open>ElevateProcess\<close> gives back each process reference it
  took exactly once on every exit path: none is taken when the target lookup fails;
  the target's is taken and released when the lookup of the system process fails; both
  are taken and released on success. When either lookup fails it returns that lookup's
  failure status and memory is unchanged. On success the eight bytes at the resolved
  token offset of the target process are those found at the same offset of the system
  process, and no byte outside these eight is written.
\<close>

theorem ElevateProcess_references_and_copy:
  "(case ElevateProcess v lookup mem targetPid of (status, mem', evs) \<Rightarrow>
      references_released evs \<and>
      (\<not> NT_SUCCESS (fst (lookup targetPid)) \<longrightarrow>
         status = fst (lookup targetPid) \<and> mem' = mem \<and> evs = []) \<and>
      (NT_SUCCESS (fst (lookup targetPid)) \<and> \<not> NT_SUCCESS (fst (lookup SYSTEM_PROCESS_PID)) \<longrightarrow>
         status = fst (lookup SYSTEM_PROCESS_PID) \<and> mem' = mem \<and>
         evs = [Referenced (snd (lookup targetPid)), Dereferenced (snd (lookup targetPid))]) \<and>
      (NT_SUCCESS (fst (lookup targetPid)) \<and> NT_SUCCESS (fst (lookup SYSTEM_PROCESS_PID)) \<longrightarrow>
         status = fst (lookup SYSTEM_PROCESS_PID) \<and>
         load_UINT64 mem' (snd (lookup targetPid) + GetTokenOffset v) =
           load_UINT64 mem (snd (lookup SYSTEM_PROCESS_PID) + GetTokenOffset v) \<and>
         (\<forall>x. 8 \<le> unat (x - (snd (lookup targetPid) + GetTokenOffset v)) \<longrightarrow> mem' x = mem x) \<and>
         evs = [Referenced (snd (lookup targetPid)), Referenced (snd (lookup SYSTEM_PROCESS_PID)),
                Dereferenced (snd (lookup SYSTEM_PROCESS_PID)), Dereferenced (snd (lookup targetPid))]))"
proof -
  obtain st tp where t: "lookup targetPid = (st, tp)" by (cases "lookup targetPid")
  obtain st' pp where p: "lookup SYSTEM_PROCESS_PID = (st', pp)"
    by (cases "lookup SYSTEM_PROCESS_PID")
  show ?thesis
  proof (cases "NT_SUCCESS st")
    case False
    then show ?thesis
      by (simp add: ElevateProcess_def Let_def references_released_def t)
  next
    case st: True
    show ?thesis
    proof (cases "NT_SUCCESS st'")
      case False
      with st show ?thesis
        by (simp add: ElevateProcess_def Let_def references_released_def t p)
    next
      case True
      with st show ?thesis
        by (simp add: ElevateProcess_def Let_def references_released_def t p
            load_store_UINT64 length_load_UINT64 store_UINT64_other)
    qed
  qed
qed

theorem ElevateProcess_references_and_copy_witness:
  "ElevateProcess (STATUS_SUCCESS, 19041) two_processes token_memory 999 =
     (0xC000000B, token_memory, []) \<and>
   ElevateProcess (STATUS_SUCCESS, 19041)
       (\<lambda>pid. if pid = 1234 then (STATUS_SUCCESS, 0x10000) else (0xC000000B, 0)) token_memory 1234 =
     (0xC000000B, token_memory, [Referenced 0x10000, Dereferenced 0x10000]) \<and>
   (case ElevateProcess (STATUS_SUCCESS, 19041) two_processes token_memory 1234 of
      (status, mem', evs) \<Rightarrow>
        status = STATUS_SUCCESS \<and>
        load_UINT64 mem' 0x104b8 = [0x11, 0, 0, 0, 0, 0, 0, 0x88] \<and>
        evs = [Referenced 0x10000, Referenced 0x20000, Dereferenced 0x20000, Dereferenced 0x10000])"
proof -
  let ?v = "(STATUS_SUCCESS, 19041) :: os_version"
  let ?one = "\<lambda>pid :: ULONG. if pid = 1234 then (STATUS_SUCCESS, 0x10000 :: ptr) else (0xC000000B, 0)"
  have off: "GetTokenOffset ?v = 0x4b8"
    by (simp add: GetTokenOffset_def NT_SUCCESS_def STATUS_SUCCESS_def)
  have bad: "\<not> NT_SUCCESS (fst (two_processes 999))" "\<not> NT_SUCCESS (fst (?one SYSTEM_PROCESS_PID))"
    by (simp_all add: two_processes_def NT_SUCCESS_def SYSTEM_PROCESS_PID_def)
  have good: "NT_SUCCESS (fst (two_processes 1234))" "NT_SUCCESS (fst (two_processes SYSTEM_PROCESS_PID))"
      "NT_SUCCESS (fst (?one 1234))"
    by (simp_all add: two_processes_def NT_SUCCESS_def SYSTEM_PROCESS_PID_def STATUS_SUCCESS_def)
  have vals: "two_processes 999 = (0xC000000B, 0)" "two_processes 1234 = (STATUS_SUCCESS, 0x10000)"
      "two_processes SYSTEM_PROCESS_PID = (STATUS_SUCCESS, 0x20000)"
    by (simp_all add: two_processes_def SYSTEM_PROCESS_PID_def)
  have src: "load_UINT64 token_memory 0x204b8 = [0x11, 0, 0, 0, 0, 0, 0, 0x88]"
    by (simp add: load_UINT64_def token_memory_def upt_rec)
  have c1: "ElevateProcess ?v two_processes token_memory 999 = (0xC000000B, token_memory, [])"
    using ElevateProcess_references_and_copy
            [where v = ?v and lookup = two_processes and mem = token_memory and targetPid = 999] bad(1)
    by (auto simp: vals split: prod.splits)
  have c2: "ElevateProcess ?v ?one token_memory 1234 =
      (0xC000000B, token_memory, [Referenced 0x10000, Dereferenced 0x10000])"
    using ElevateProcess_references_and_copy
            [where v = ?v and lookup = ?one and mem = token_memory and targetPid = 1234] bad(2) good(3)
    by (auto simp: SYSTEM_PROCESS_PID_def split: prod.splits)
  have c3: "case ElevateProcess ?v two_processes token_memory 1234 of
      (status, mem', evs) \<Rightarrow>
        status = STATUS_SUCCESS \<and>
        load_UINT64 mem' 0x104b8 = [0x11, 0, 0, 0, 0, 0, 0, 0x88] \<and>
        evs = [Referenced 0x10000, Referenced 0x20000, Dereferenced 0x20000, Dereferenced 0x10000]"
    using ElevateProcess_references_and_copy
            [where v = ?v and lookup = two_processes and mem = token_memory and targetPid = 1234] good(1,2)
    by (auto simp: vals off src split: prod.splits)
  from c1 c2 c3 show ?thesis by simp
qed

section \<open>Offsets after a failed version query\<close>

lemma GetTokenOffset_failed:
  "\<not> NT_SUCCESS (fst v) \<Longrightarrow> GetTokenOffset v = 0xFFFFFFFFC0000001"
  by (cases v) (simp add: GetTokenOffset_def STATUS_UNSUCCESSFUL_def)

text \<open>
  The \<open>HideProcess\<close> half of claim C3 holds: after a failed version query it returns
  \<open>STATUS_UNSUCCESSFUL\<close>, the list memory is untouched and no pid field is read.
\<close>

lemma HideProcess_aborts_on_version_failure:
  "\<not> NT_SUCCESS (fst v) \<Longrightarrow> HideProcess v cur U m pid = Some (STATUS_UNSUCCESSFUL, m, [])"
  by (simp add: HideProcess_def GetActiveProcessLinksOffset_failed)

text \<open>
  \<open>ElevateProcess\<close> after a failed version query, in general: with both lookups
  successful it copies through the offset \<open>0xFFFFFFFFC0000001\<close> and returns the status of
  the second lookup.
\<close>

lemma ElevateProcess_after_failed_query:
  assumes "\<not> NT_SUCCESS (fst v)"
    and "lookup targetPid = (st, tp)" and "NT_SUCCESS st"
    and "lookup SYSTEM_PROCESS_PID = (st', pp)" and "NT_SUCCESS st'"
  shows "ElevateProcess v lookup mem targetPid =
     (st',
      store_UINT64 mem (tp + 0xFFFFFFFFC0000001) (load_UINT64 mem (pp + 0xFFFFFFFFC0000001)),
      [Referenced tp, Referenced pp, Dereferenced pp, Dereferenced tp])"
  using assms by (simp add: ElevateProcess_def Let_def GetTokenOffset_failed)

text \<open>
  Claim C3 at a failing input. The version query fails, so \<open>GetTokenOffset\<close> returns
  \<open>(UINT64)STATUS_UNSUCCESSFUL = 0xFFFFFFFFC0000001\<close>. \<open>ElevateProcess\<close> never compares
  the offset with that value: with both lookups successful (target 1234 at \<open>0x10000\<close>,
  system process at \<open>0x20000\<close>) it returns \<open>STATUS_SUCCESS\<close> and has stored, at the
  target plus that offset, the eight bytes read at the system process plus that offset;
  the byte at \<open>0xFFFFFFFFC0010001\<close> changes from 0 to \<open>0xAA\<close>.
\<close>

theorem ElevateProcess_uses_offset_of_failed_query:
  "\<not> NT_SUCCESS (fst (STATUS_UNSUCCESSFUL, 0 :: ULONG)) \<and>
   GetTokenOffset (STATUS_UNSUCCESSFUL, 0) = 0xFFFFFFFFC0000001 \<and>
   fst (ElevateProcess (STATUS_UNSUCCESSFUL, 0) two_processes stray_memory 1234) = STATUS_SUCCESS \<and>
   stray_memory 0xFFFFFFFFC0010001 = 0 \<and>
   fst (snd (ElevateProcess (STATUS_UNSUCCESSFUL, 0) two_processes stray_memory 1234))
     0xFFFFFFFFC0010001 = 0xAA"
proof -
  have off: "GetTokenOffset (STATUS_UNSUCCESSFUL, 0) = 0xFFFFFFFFC0000001"
    by (simp add: GetTokenOffset_def NT_SUCCESS_def STATUS_UNSUCCESSFUL_def)
  have run: "fst (ElevateProcess (STATUS_UNSUCCESSFUL, 0) two_processes stray_memory 1234) = STATUS_SUCCESS \<and>
      fst (snd (ElevateProcess (STATUS_UNSUCCESSFUL, 0) two_processes stray_memory 1234))
        0xFFFFFFFFC0010001 = 0xAA"
    unfolding ElevateProcess_def Let_def off
    by (simp add: two_processes_def SYSTEM_PROCESS_PID_def NT_SUCCESS_def STATUS_SUCCESS_def
        stray_memory_def store_UINT64_def load_UINT64_def upt_rec)
  have "\<not> NT_SUCCESS (fst (STATUS_UNSUCCESSFUL, 0 :: ULONG))"
    by (simp add: NT_SUCCESS_def STATUS_UNSUCCESSFUL_def)
  moreover have "stray_memory 0xFFFFFFFFC0010001 = 0" by (simp add: stray_memory_def)
  ultimately show ?thesis using off run by simp
qed

section \<open>The remote module patcher\<close>

lemma copy_requests_append:
  "copy_requests (xs @ ys) = copy_requests xs @ copy_requests ys"
  by (induction xs rule: copy_requests.induct) simp_all

lemma protect_requests_append:
  "protect_requests (xs @ ys) = protect_requests xs @ protect_requests ys"
  by (induction xs rule: protect_requests.induct) simp_all

lemma requests_replicate_Delayed:
  "copy_requests (replicate n Delayed) = []" "protect_requests (replicate n Delayed) = []"
  by (induction n) simp_all

lemma requests_CleanUp:
  "copy_requests (CleanUp tp) = []" "protect_requests (CleanUp tp) = []"
  by (simp_all add: CleanUp_def)

lemma length_c_string: "length (c_string s) = strlen s + 1"
  by (simp add: c_string_def strlen_def)

lemma memcpy_same:
  "n \<le> length xs \<Longrightarrow> memcpy xs xs n = Some xs"
  by (simp add: memcpy_def)

lemma memcpy_overrun:
  "length xs < n \<Longrightarrow> memcpy xs xs n = None"
  by (simp add: memcpy_def)

text \<open>What the staging leaves, in terms of the pool's three answers.\<close>

lemma stage_request_cases:
  "stage_request k M =
     (if \<not> ExAllocatePool k ModuleNameBuffer ((wcslen (ModuleName M) + 1) * 2) then
        Inl (Returned STATUS_UNSUCCESSFUL [])
      else if \<not> ExAllocatePool k FunctionNameBuffer (strlen (FunctionName M) + 1) then
        Inl (Returned STATUS_UNSUCCESSFUL
          [PoolAllocated ModuleNameBuffer ((wcslen (ModuleName M) + 1) * 2),
           PoolFreed ModuleNameBuffer])
      else if \<not> ExAllocatePool k PatchBuffer (strlen (Patch M)) then
        Inl (Returned STATUS_UNSUCCESSFUL
          [PoolAllocated ModuleNameBuffer ((wcslen (ModuleName M) + 1) * 2),
           PoolAllocated FunctionNameBuffer (strlen (FunctionName M) + 1),
           PoolFreed FunctionNameBuffer, PoolFreed ModuleNameBuffer])
      else if strlen (FunctionName M) + 1 < strlen (Patch M) then
        Inl (BufferOverrun
          [PoolAllocated ModuleNameBuffer ((wcslen (ModuleName M) + 1) * 2),
           PoolAllocated FunctionNameBuffer (strlen (FunctionName M) + 1),
           PoolAllocated PatchBuffer (strlen (Patch M))])
      else
        Inr (c_wstring (ModuleName M), c_string (FunctionName M),
          [PoolAllocated ModuleNameBuffer ((wcslen (ModuleName M) + 1) * 2),
           PoolAllocated FunctionNameBuffer (strlen (FunctionName M) + 1),
           PoolAllocated PatchBuffer (strlen (Patch M))]))"
  by (simp add: stage_request_def Let_def memcpy_same memcpy_overrun length_c_string)

lemma stage_request_no_requests:
  "(case stage_request k M of
      Inl finished \<Rightarrow> copy_requests (result_events finished) = [] \<and>
                     protect_requests (result_events finished) = []
    | Inr (moduleName, functionName, staged) \<Rightarrow>
        copy_requests staged = [] \<and> protect_requests staged = [])"
  by (simp add: stage_request_cases)

lemma patch_function_copies:
  "copy_requests (snd (patch_function protect copy k tp fa)) = [] \<or>
   (\<exists>a. copy_requests (snd (patch_function protect copy k tp fa)) = [(a, testPatch)])"
  by (simp add: patch_function_def Let_def split: prod.splits)

lemma patch_target_copies:
  "copy_requests (snd (patch_target protect copy k pid mn fn)) = [] \<or>
   (\<exists>a. copy_requests (snd (patch_target protect copy k pid mn fn)) = [(a, testPatch)])"
proof -
  obtain found tp where l: "PsLookupProcessByProcessId k pid = (found, tp)"
    by (cases "PsLookupProcessByProcessId k pid")
  show ?thesis
  proof (cases "found = STATUS_SUCCESS")
    case False
    with l show ?thesis by (simp add: patch_target_def)
  next
    case True
    show ?thesis
    proof (cases "locate_function k tp mn fn")
      case (Inl a)
      with l True show ?thesis
        by (cases a) (simp add: patch_target_def copy_requests_append requests_replicate_Delayed
            requests_CleanUp)
    next
      case (Inr b)
      obtain d fa where b: "b = (d, fa)" by (cases b)
      obtain st pevs where pf: "patch_function protect copy k tp fa = (st, pevs)"
        by (cases "patch_function protect copy k tp fa")
      from patch_function_copies [of protect copy k tp fa] pf
      have "copy_requests pevs = [] \<or> (\<exists>a. copy_requests pevs = [(a, testPatch)])" by simp
      with l True Inr b pf show ?thesis
        by (simp add: patch_target_def copy_requests_append requests_replicate_Delayed
            requests_CleanUp)
    qed
  qed
qed

lemma PatchModule_copies:
  "copy_requests (result_events (PatchModule k M)) = [] \<or>
   (\<exists>a. copy_requests (result_events (PatchModule k M)) = [(a, testPatch)])"
proof (cases "ZwProtectVirtualMemory k")
  case None
  then show ?thesis by (simp add: PatchModule_def)
next
  case (Some protect)
  note P = this
  show ?thesis
  proof (cases "MmCopyVirtualMemory k")
    case None
    with P show ?thesis by (simp add: PatchModule_def)
  next
    case (Some copy)
    show ?thesis
    proof (cases "stage_request k M")
      case (Inl finished)
      with stage_request_no_requests [of k M] P Some show ?thesis
        by (simp add: PatchModule_def)
    next
      case (Inr r)
      obtain mn fn staged where r: "r = (mn, fn, staged)" by (cases r)
      obtain st evs where t: "patch_target protect copy k (Pid M) mn fn = (st, evs)"
        by (cases "patch_target protect copy k (Pid M) mn fn")
      from stage_request_no_requests [of k M] Inr r have "copy_requests staged = []" by simp
      moreover from patch_target_copies [of protect copy k "Pid M" mn fn] t
      have "copy_requests evs = [] \<or> (\<exists>a. copy_requests evs = [(a, testPatch)])" by simp
      ultimately show ?thesis using P Some Inr r t
        by (simp add: PatchModule_def copy_requests_append)
    qed
  qed
qed

lemma stage_request_other_fields:
  "stage_request (k\<lparr>ObOpenObjectByPointer := f\<rparr>) M = stage_request k M"
  "stage_request (k\<lparr>ZwProtectVirtualMemory := g\<rparr>) M = stage_request k M"
  "stage_request (k\<lparr>MmCopyVirtualMemory := c\<rparr>) M = stage_request k M"
  by (simp_all add: stage_request_cases)

lemma locate_function_other_fields:
  "locate_function (k\<lparr>ObOpenObjectByPointer := f\<rparr>) tp mn fn = locate_function k tp mn fn"
  "locate_function (k\<lparr>ZwProtectVirtualMemory := g\<rparr>) tp mn fn = locate_function k tp mn fn"
  "locate_function (k\<lparr>MmCopyVirtualMemory := c\<rparr>) tp mn fn = locate_function k tp mn fn"
  by (simp_all add: locate_function_def cong: option.case_cong)

lemma demo_stage:
  "stage_request demo_kernel demo_request =
     Inr ([0x61, 0], [0x66, 0x6F, 0x6F, 0],
          [PoolAllocated ModuleNameBuffer 4, PoolAllocated FunctionNameBuffer 4,
           PoolAllocated PatchBuffer 2])"
  by (simp add: demo_kernel_def demo_request_def stage_request_def memcpy_def c_string_def
      c_wstring_def strlen_def wcslen_def)

lemma demo_locate:
  "locate_function demo_kernel 0x10000 [0x61, 0] [0x66, 0x6F, 0x6F, 0] = Inr (0, 0x403010)"
  by (simp add: demo_kernel_def demo_image_def locate_function_def wait_for_loader.simps
      find_export.simps stricmp_equal_def tolower_def towlower_def IMAGE_DOS_SIGNATURE_def
      IMAGE_NT_SIGNATURE_def Let_def)

lemma demo_fields:
  "ZwProtectVirtualMemory demo_kernel = Some (\<lambda>h a n prot. (STATUS_SUCCESS, a, n, 0x20))"
  "MmCopyVirtualMemory demo_kernel = Some (\<lambda>process a bs. STATUS_SUCCESS)"
  "PsLookupProcessByProcessId demo_kernel 1234 = (STATUS_SUCCESS, 0x10000)"
  "PsLookupProcessByProcessId demo_kernel 999 = (0xC000000B, 0)"
  "ObOpenObjectByPointer demo_kernel p = (STATUS_SUCCESS, 0x80)"
  "Pid demo_request = 1234"
  by (simp_all add: demo_kernel_def demo_request_def)

lemma demo_target:
  "patch_target (\<lambda>h a n prot. (STATUS_SUCCESS, a, n, 0x20)) (\<lambda>process a bs. STATUS_SUCCESS)
      demo_kernel 1234 [0x61, 0] [0x66, 0x6F, 0x6F, 0] =
     (STATUS_SUCCESS,
       [Referenced 0x10000, Attached 0x10000,
        HandleOpened 0x80, ProtectRequested 0x80 0x403010 6 PAGE_EXECUTE_READWRITE,
        CopyRequested 0x403010 testPatch,
        ProtectRequested 0x80 0x403010 6 0x20, HandleClosed 0x80, Detached,
        PoolFreed ModuleNameBuffer, PoolFreed FunctionNameBuffer,
        PoolFreed PatchBuffer, Dereferenced 0x10000])"
  by (simp add: patch_target_def patch_function_def CleanUp_def demo_locate demo_fields)

lemma demo_run:
  "PatchModule demo_kernel demo_request =
     Returned STATUS_SUCCESS
       [PoolAllocated ModuleNameBuffer 4, PoolAllocated FunctionNameBuffer 4,
        PoolAllocated PatchBuffer 2, Referenced 0x10000, Attached 0x10000,
        HandleOpened 0x80, ProtectRequested 0x80 0x403010 6 PAGE_EXECUTE_READWRITE,
        CopyRequested 0x403010 testPatch,
        ProtectRequested 0x80 0x403010 6 0x20, HandleClosed 0x80, Detached,
        PoolFreed ModuleNameBuffer, PoolFreed FunctionNameBuffer,
        PoolFreed PatchBuffer, Dereferenced 0x10000]"
  by (simp add: PatchModule_def demo_stage demo_target demo_fields)

text \<open>
  Claim C4 at a failing input. Every allocation succeeds and the process lookup fails
  (pid 999 names no process): \<open>PatchModule\<close> returns \<open>STATUS_UNSUCCESSFUL\<close> from line 57
  with the three buffers allocated and none of them freed.
\<close>

theorem PatchModule_leaks_on_lookup_failure:
  "PatchModule demo_kernel (demo_request\<lparr>Pid := 999\<rparr>) =
     Returned STATUS_UNSUCCESSFUL
       [PoolAllocated ModuleNameBuffer 4, PoolAllocated FunctionNameBuffer 4,
        PoolAllocated PatchBuffer 2]"
proof -
  have stage: "stage_request demo_kernel (demo_request\<lparr>Pid := 999\<rparr>) =
      stage_request demo_kernel demo_request"
    by (simp add: stage_request_cases)
  show ?thesis
    by (simp add: PatchModule_def patch_target_def stage demo_stage demo_fields NT_SUCCESS_def
        STATUS_SUCCESS_def)
qed

text \<open>
  The same return in general: whenever the staging has succeeded and the lookup fails,
  the three allocations are all the events of the call.
\<close>

lemma PatchModule_lookup_failure:
  assumes "ZwProtectVirtualMemory k = Some protect" and "MmCopyVirtualMemory k = Some copy"
    and "stage_request k M = Inr (moduleName, functionName, staged)"
    and "PsLookupProcessByProcessId k (Pid M) = (found, tp)" and "\<not> NT_SUCCESS found"
  shows "PatchModule k M = Returned STATUS_UNSUCCESSFUL staged \<and>
         staged = [PoolAllocated ModuleNameBuffer ((wcslen (ModuleName M) + 1) * 2),
                   PoolAllocated FunctionNameBuffer (strlen (FunctionName M) + 1),
                   PoolAllocated PatchBuffer (strlen (Patch M))]"
proof -
  from assms(5) have "found \<noteq> STATUS_SUCCESS"
    by (auto simp: NT_SUCCESS_def STATUS_SUCCESS_def)
  with assms have "PatchModule k M = Returned STATUS_UNSUCCESSFUL staged"
    by (simp add: PatchModule_def patch_target_def)
  moreover from assms(3) have "staged = [PoolAllocated ModuleNameBuffer ((wcslen (ModuleName M) + 1) * 2),
                   PoolAllocated FunctionNameBuffer (strlen (FunctionName M) + 1),
                   PoolAllocated PatchBuffer (strlen (Patch M))]"
    by (auto simp: stage_request_cases split: if_splits)
  ultimately show ?thesis by simp
qed

text \<open>
  The other paths of claim C4 do what it says: once the lookup has succeeded, every
  return goes through \<open>CleanUp\<close>, which detaches, frees the three buffers and releases
  the process; the earlier returns free what was allocated before them.
\<close>

lemma patch_target_cleans_up:
  assumes "PsLookupProcessByProcessId k pid = (STATUS_SUCCESS, tp)"
  shows "\<exists>mid. snd (patch_target protect copy k pid mn fn) =
           [Referenced tp, Attached tp] @ mid @ CleanUp tp \<and>
           Attached tp \<notin> set mid \<and> Detached \<notin> set mid"
proof (cases "locate_function k tp mn fn")
  case (Inl a)
  with assms show ?thesis
    by (cases a) (auto simp: patch_target_def)
next
  case (Inr b)
  obtain d fa where b: "b = (d, fa)" by (cases b)
  obtain st pevs where pf: "patch_function protect copy k tp fa = (st, pevs)"
    by (cases "patch_function protect copy k tp fa")
  then have "Attached tp \<notin> set pevs \<and> Detached \<notin> set pevs"
    by (auto simp: patch_function_def Let_def split: prod.splits if_splits)
  with assms Inr b pf show ?thesis
    by (auto simp: patch_target_def)
qed

lemma PatchModule_resolved:
  assumes Zw: "ZwProtectVirtualMemory k = Some protect" and Mm: "MmCopyVirtualMemory k = Some copy"
    and st: "stage_request k M = Inr (moduleName, functionName, staged)"
    and lk: "PsLookupProcessByProcessId k (Pid M) = (STATUS_SUCCESS, tp)"
    and loc: "locate_function k tp moduleName functionName = Inr (delays, fa)"
  shows "PatchModule k M =
           Returned (fst (patch_function protect copy k tp fa))
             (staged @ [Referenced tp, Attached tp] @ replicate delays Delayed @
              snd (patch_function protect copy k tp fa) @ CleanUp tp)"
  using assms by (simp add: PatchModule_def patch_target_def split: prod.splits)

lemma written_addresses_one:
  "copy_requests evs = [(a, testPatch)] \<Longrightarrow>
   written_addresses evs = [a, a + 1, a + 2, a + 3, a + 4, a + 5]"
  by (simp add: written_addresses_def testPatch_def upt_rec)

text \<open>
  What \<open>PatchModule\<close> asks for once the target function is resolved (the staging
  succeeds, the process lookup returns \<open>STATUS_SUCCESS\<close> and the search ends at a matching
  export, at the address \<open>fa\<close>). The two guards of the source: when the handle cannot
  be opened (lines 121 to 125), no protection change and no copy is asked for; when the
  protection change, asked for 6 bytes at \<open>fa\<close>, fails (lines 134 to 139), no copy is
  asked for. When it succeeds, one copy of the six bytes of \<open>testPatch\<close> is asked for;
  its destination is what the protection call wrote back through \<open>&functionAddress\<close>,
  which is \<open>fa\<close> only when the call leaves the base address as passed.
\<close>

lemma PatchModule_requests_when_resolved:
  assumes Zw: "ZwProtectVirtualMemory k = Some protect" and Mm: "MmCopyVirtualMemory k = Some copy"
    and st: "stage_request k M = Inr (moduleName, functionName, staged)"
    and lk: "PsLookupProcessByProcessId k (Pid M) = (STATUS_SUCCESS, tp)"
    and loc: "locate_function k tp moduleName functionName = Inr (delays, fa)"
  shows
    "(fst (ObOpenObjectByPointer k tp) \<noteq> STATUS_SUCCESS \<longrightarrow>
        result_status (PatchModule k M) = Some STATUS_UNSUCCESSFUL \<and>
        protect_requests (result_events (PatchModule k M)) = [] \<and>
        copy_requests (result_events (PatchModule k M)) = []) \<and>
     (ObOpenObjectByPointer k tp = (STATUS_SUCCESS, h) \<and>
      protect h fa 6 PAGE_EXECUTE_READWRITE = (failed, fa', len', old) \<and> failed \<noteq> STATUS_SUCCESS \<longrightarrow>
        result_status (PatchModule k M) = Some failed \<and>
        protect_requests (result_events (PatchModule k M)) = [(fa, 6, PAGE_EXECUTE_READWRITE)] \<and>
        copy_requests (result_events (PatchModule k M)) = []) \<and>
     (ObOpenObjectByPointer k tp = (STATUS_SUCCESS, h) \<and>
      protect h fa 6 PAGE_EXECUTE_READWRITE = (STATUS_SUCCESS, fa', len', old) \<longrightarrow>
        result_status (PatchModule k M) = Some (copy tp fa' testPatch) \<and>
        protect_requests (result_events (PatchModule k M)) =
          [(fa, 6, PAGE_EXECUTE_READWRITE), (fa', len', old)] \<and>
        copy_requests (result_events (PatchModule k M)) = [(fa', testPatch)] \<and>
        length testPatch = 6 \<and>
        written_addresses (result_events (PatchModule k M)) =
          [fa', fa' + 1, fa' + 2, fa' + 3, fa' + 4, fa' + 5] \<and>
        (fa' = fa \<longrightarrow>
           written_addresses (result_events (PatchModule k M)) =
             [fa, fa + 1, fa + 2, fa + 3, fa + 4, fa + 5]))"
proof -
  note run = PatchModule_resolved [OF assms]
  from stage_request_no_requests [of k M] st
  have staged: "copy_requests staged = []" "protect_requests staged = []" by simp_all
  note req = copy_requests_append protect_requests_append requests_replicate_Delayed
    requests_CleanUp staged
  have a: "fst (ObOpenObjectByPointer k tp) \<noteq> STATUS_SUCCESS \<longrightarrow>
        result_status (PatchModule k M) = Some STATUS_UNSUCCESSFUL \<and>
        protect_requests (result_events (PatchModule k M)) = [] \<and>
        copy_requests (result_events (PatchModule k M)) = []"
    by (cases "ObOpenObjectByPointer k tp") (simp add: run req patch_function_def)
  have b: "ObOpenObjectByPointer k tp = (STATUS_SUCCESS, h) \<and>
      protect h fa 6 PAGE_EXECUTE_READWRITE = (failed, fa', len', old) \<and> failed \<noteq> STATUS_SUCCESS \<longrightarrow>
        result_status (PatchModule k M) = Some failed \<and>
        protect_requests (result_events (PatchModule k M)) = [(fa, 6, PAGE_EXECUTE_READWRITE)] \<and>
        copy_requests (result_events (PatchModule k M)) = []"
    by (simp add: run req patch_function_def)
  have c: "ObOpenObjectByPointer k tp = (STATUS_SUCCESS, h) \<and>
      protect h fa 6 PAGE_EXECUTE_READWRITE = (STATUS_SUCCESS, fa', len', old) \<longrightarrow>
        result_status (PatchModule k M) = Some (copy tp fa' testPatch) \<and>
        protect_requests (result_events (PatchModule k M)) =
          [(fa, 6, PAGE_EXECUTE_READWRITE), (fa', len', old)] \<and>
        copy_requests (result_events (PatchModule k M)) = [(fa', testPatch)]"
    by (simp add: run req patch_function_def Let_def)
  have d: "length testPatch = 6" by (simp add: testPatch_def)
  from a b c d show ?thesis
    by (auto dest: written_addresses_one)
qed

lemma PatchModule_requests_examples:
  "protect_requests (result_events (PatchModule no_handle_kernel demo_request)) = [] \<and>
   copy_requests (result_events (PatchModule no_protect_kernel demo_request)) = [] \<and>
   protect_requests (result_events (PatchModule demo_kernel demo_request)) =
     [(0x403010, 6, PAGE_EXECUTE_READWRITE), (0x403010, 6, 0x20)] \<and>
   written_addresses (result_events (PatchModule demo_kernel demo_request)) =
     [0x403010, 0x403011, 0x403012, 0x403013, 0x403014, 0x403015]"
proof -
  let ?k1 = "demo_kernel\<lparr>ObOpenObjectByPointer := (\<lambda>process. (0xC0000022, 0))\<rparr>"
  let ?deny = "\<lambda>(h :: ptr) (a :: ptr) (n :: 64 word) (prot :: ULONG).
      (0xC0000045 :: NTSTATUS, a, n, 0 :: ULONG)"
  let ?k2 = "demo_kernel\<lparr>ZwProtectVirtualMemory := Some ?deny\<rparr>"
  have one: "fst (ObOpenObjectByPointer ?k1 0x10000) \<noteq> STATUS_SUCCESS"
    by (simp add: STATUS_SUCCESS_def)
  have two: "ObOpenObjectByPointer ?k2 0x10000 = (STATUS_SUCCESS, 0x80) \<and>
      ?deny 0x80 0x403010 6 PAGE_EXECUTE_READWRITE = (0xC0000045, 0x403010, 6, 0) \<and>
      (0xC0000045 :: NTSTATUS) \<noteq> STATUS_SUCCESS"
    by (simp add: demo_fields STATUS_SUCCESS_def)
  have three: "ObOpenObjectByPointer demo_kernel 0x10000 = (STATUS_SUCCESS, 0x80) \<and>
      (\<lambda>(h :: ptr) (a :: ptr) (n :: 64 word) (prot :: ULONG). (STATUS_SUCCESS, a, n, 0x20 :: ULONG))
        0x80 0x403010 6 PAGE_EXECUTE_READWRITE = (STATUS_SUCCESS, 0x403010, 6, 0x20)"
    by (simp add: demo_fields)
  have w1: "protect_requests (result_events (PatchModule ?k1 demo_request)) = []"
    using PatchModule_requests_when_resolved
      [where k = ?k1 and M = demo_request and tp = "0x10000" and fa = "0x403010"
         and moduleName = "[0x61, 0]" and functionName = "[0x66, 0x6F, 0x6F, 0]" and delays = 0
         and protect = "\<lambda>h a n prot. (STATUS_SUCCESS, a, n, 0x20)"
         and copy = "\<lambda>process a bs. STATUS_SUCCESS"
         and staged = "[PoolAllocated ModuleNameBuffer 4, PoolAllocated FunctionNameBuffer 4,
           PoolAllocated PatchBuffer 2]"]
      one
    by (simp add: demo_fields stage_request_other_fields locate_function_other_fields
        demo_stage demo_locate)
  have w2: "copy_requests (result_events (PatchModule ?k2 demo_request)) = []"
    using PatchModule_requests_when_resolved
      [where k = ?k2 and M = demo_request and tp = "0x10000" and fa = "0x403010"
         and moduleName = "[0x61, 0]" and functionName = "[0x66, 0x6F, 0x6F, 0]" and delays = 0
         and protect = ?deny and copy = "\<lambda>process a bs. STATUS_SUCCESS"
         and staged = "[PoolAllocated ModuleNameBuffer 4, PoolAllocated FunctionNameBuffer 4,
           PoolAllocated PatchBuffer 2]"
         and h = "0x80" and failed = "0xC0000045" and fa' = "0x403010" and len' = 6 and old = 0]
      two
    by (simp add: demo_fields stage_request_other_fields locate_function_other_fields
        demo_stage demo_locate)
  have w3: "protect_requests (result_events (PatchModule demo_kernel demo_request)) =
       [(0x403010, 6, PAGE_EXECUTE_READWRITE), (0x403010, 6, 0x20)] \<and>
     written_addresses (result_events (PatchModule demo_kernel demo_request)) =
       [0x403010, 0x403011, 0x403012, 0x403013, 0x403014, 0x403015]"
    using PatchModule_requests_when_resolved
      [where k = demo_kernel and M = demo_request and tp = "0x10000" and fa = "0x403010"
         and moduleName = "[0x61, 0]" and functionName = "[0x66, 0x6F, 0x6F, 0]" and delays = 0
         and protect = "\<lambda>h a n prot. (STATUS_SUCCESS, a, n, 0x20)"
         and copy = "\<lambda>process a bs. STATUS_SUCCESS"
         and staged = "[PoolAllocated ModuleNameBuffer 4, PoolAllocated FunctionNameBuffer 4,
           PoolAllocated PatchBuffer 2]"
         and h = "0x80" and fa' = "0x403010" and len' = 6 and old = "0x20"]
      three
    by (simp add: demo_fields demo_stage demo_locate)
  from w1 w2 w3 show ?thesis by (simp add: no_handle_kernel_def no_protect_kernel_def)
qed

text \<open>
  A patch longer than the function name and its terminator overruns the function-name
  buffer in the third \<open>memcpy\<close> (line 53), before the target process is looked up.
\<close>

lemma PatchModule_long_patch_overruns:
  "PatchModule demo_kernel (demo_request\<lparr>Patch := [1, 2, 3, 4, 5, 6]\<rparr>) =
     BufferOverrun
       [PoolAllocated ModuleNameBuffer 4, PoolAllocated FunctionNameBuffer 4,
        PoolAllocated PatchBuffer 6]"
  by (simp add: PatchModule_def demo_kernel_def demo_request_def stage_request_def memcpy_def
      c_string_def c_wstring_def strlen_def wcslen_def Let_def)

text \<open>
  Claim C5 at a failing input. The target function is resolved at \<open>0x403010\<close>, the handle
  is opened, and \<open>ZwProtectVirtualMemory\<close> succeeds and reports back, through
  \<open>&functionAddress\<close> and \<open>&patchLen\<close>, the region whose protection it changed: the page
  at \<open>0x403000\<close>, of \<open>0x1000\<close> bytes. Under the comment \<open>Patching the function\<close> the
  source then copies to \<open>functionAddress\<close>, so the six bytes go to \<open>0x403000\<close> up to
  \<open>0x403005\<close> and the resolved function at \<open>0x403010\<close> is not written.
\<close>

theorem PatchModule_copies_to_page_start:
  "locate_function rounding_kernel 0x10000 [0x61, 0] [0x66, 0x6F, 0x6F, 0] = Inr (0, 0x403010) \<and>
   PatchModule rounding_kernel demo_request =
     Returned STATUS_SUCCESS
       [PoolAllocated ModuleNameBuffer 4, PoolAllocated FunctionNameBuffer 4,
        PoolAllocated PatchBuffer 2, Referenced 0x10000, Attached 0x10000,
        HandleOpened 0x80, ProtectRequested 0x80 0x403010 6 PAGE_EXECUTE_READWRITE,
        CopyRequested 0x403000 testPatch,
        ProtectRequested 0x80 0x403000 0x1000 0x20, HandleClosed 0x80, Detached,
        PoolFreed ModuleNameBuffer, PoolFreed FunctionNameBuffer,
        PoolFreed PatchBuffer, Dereferenced 0x10000] \<and>
   written_addresses (result_events (PatchModule rounding_kernel demo_request)) =
     [0x403000, 0x403001, 0x403002, 0x403003, 0x403004, 0x403005]"
proof -
  let ?round = "\<lambda>(h :: ptr) (a :: ptr) (n :: 64 word) (prot :: ULONG).
      (STATUS_SUCCESS, a AND NOT 0xFFF, 0x1000 :: 64 word, 0x20 :: ULONG)"
  let ?k2 = "demo_kernel\<lparr>ZwProtectVirtualMemory := Some ?round\<rparr>"
  have f2: "ZwProtectVirtualMemory ?k2 = Some ?round"
      "MmCopyVirtualMemory ?k2 = Some (\<lambda>process a bs. STATUS_SUCCESS)"
      "PsLookupProcessByProcessId ?k2 1234 = (STATUS_SUCCESS, 0x10000)"
      "ObOpenObjectByPointer ?k2 0x10000 = (STATUS_SUCCESS, 0x80)"
    by (simp_all add: demo_fields)
  have r2: "PatchModule ?k2 demo_request =
     Returned STATUS_SUCCESS
       [PoolAllocated ModuleNameBuffer 4, PoolAllocated FunctionNameBuffer 4,
        PoolAllocated PatchBuffer 2, Referenced 0x10000, Attached 0x10000,
        HandleOpened 0x80, ProtectRequested 0x80 0x403010 6 PAGE_EXECUTE_READWRITE,
        CopyRequested 0x403000 testPatch,
        ProtectRequested 0x80 0x403000 0x1000 0x20, HandleClosed 0x80, Detached,
        PoolFreed ModuleNameBuffer, PoolFreed FunctionNameBuffer,
        PoolFreed PatchBuffer, Dereferenced 0x10000]"
    by (simp add: PatchModule_def patch_target_def patch_function_def CleanUp_def f2
        stage_request_other_fields locate_function_other_fields demo_stage demo_locate
        demo_fields)
  have w: "written_addresses
      [PoolAllocated ModuleNameBuffer 4, PoolAllocated FunctionNameBuffer 4,
        PoolAllocated PatchBuffer 2, Referenced 0x10000, Attached 0x10000,
        HandleOpened 0x80, ProtectRequested 0x80 0x403010 6 PAGE_EXECUTE_READWRITE,
        CopyRequested 0x403000 testPatch,
        ProtectRequested 0x80 0x403000 0x1000 0x20, HandleClosed 0x80, Detached,
        PoolFreed ModuleNameBuffer, PoolFreed FunctionNameBuffer,
        PoolFreed PatchBuffer, Dereferenced 0x10000] =
     [0x403000, 0x403001, 0x403002, 0x403003, 0x403004, 0x403005]"
    by (simp add: written_addresses_one)
  from r2 w demo_locate show ?thesis
    by (simp add: locate_function_other_fields rounding_kernel_def)
qed

lemma PatchModule_Patch_staged:
  assumes "ExAllocatePool k PatchBuffer (strlen p)" and "strlen p \<le> strlen (FunctionName M) + 1"
    and "ZwProtectVirtualMemory k = Some protect" and "MmCopyVirtualMemory k = Some copy"
    and "ExAllocatePool k ModuleNameBuffer ((wcslen (ModuleName M) + 1) * 2)"
    and "ExAllocatePool k FunctionNameBuffer (strlen (FunctionName M) + 1)"
  shows "PatchModule k (M\<lparr>Patch := p\<rparr>) =
     Returned (fst (patch_target protect copy k (Pid M) (c_wstring (ModuleName M)) (c_string (FunctionName M))))
       ([PoolAllocated ModuleNameBuffer ((wcslen (ModuleName M) + 1) * 2),
         PoolAllocated FunctionNameBuffer (strlen (FunctionName M) + 1),
         PoolAllocated PatchBuffer (strlen p)] @
        snd (patch_target protect copy k (Pid M) (c_wstring (ModuleName M)) (c_string (FunctionName M))))"
  using assms by (simp add: PatchModule_def stage_request_cases split: prod.splits)

lemma PatchModule_Patch_independent:
  assumes same: "ExAllocatePool k PatchBuffer (strlen p) = ExAllocatePool k PatchBuffer (strlen p')"
    and fits: "strlen p \<le> strlen (FunctionName M) + 1" "strlen p' \<le> strlen (FunctionName M) + 1"
  shows "result_status (PatchModule k (M\<lparr>Patch := p\<rparr>)) = result_status (PatchModule k (M\<lparr>Patch := p'\<rparr>)) \<and>
         copy_requests (result_events (PatchModule k (M\<lparr>Patch := p\<rparr>))) =
           copy_requests (result_events (PatchModule k (M\<lparr>Patch := p'\<rparr>))) \<and>
         protect_requests (result_events (PatchModule k (M\<lparr>Patch := p\<rparr>))) =
           protect_requests (result_events (PatchModule k (M\<lparr>Patch := p'\<rparr>)))"
proof (cases "ZwProtectVirtualMemory k = None \<or> MmCopyVirtualMemory k = None \<or>
    \<not> ExAllocatePool k ModuleNameBuffer ((wcslen (ModuleName M) + 1) * 2) \<or>
    \<not> ExAllocatePool k FunctionNameBuffer (strlen (FunctionName M) + 1) \<or>
    \<not> ExAllocatePool k PatchBuffer (strlen p)")
  case True
  then show ?thesis using same
    by (auto simp: PatchModule_def stage_request_cases split: option.splits)
next
  case False
  then obtain protect copy where pc: "ZwProtectVirtualMemory k = Some protect"
      "MmCopyVirtualMemory k = Some copy" by auto
  from False same have al: "ExAllocatePool k PatchBuffer (strlen p)" "ExAllocatePool k PatchBuffer (strlen p')"
      "ExAllocatePool k ModuleNameBuffer ((wcslen (ModuleName M) + 1) * 2)"
      "ExAllocatePool k FunctionNameBuffer (strlen (FunctionName M) + 1)"
    by auto
  show ?thesis
    by (simp add: PatchModule_Patch_staged [OF al(1) fits(1) pc al(3,4)]
        PatchModule_Patch_staged [OF al(2) fits(2) pc al(3,4)]
        copy_requests_append protect_requests_append)
qed

text \<open>
  Claim C6. Every copy \<open>PatchModule\<close> asks for carries the constant bytes
  \<open>B8 57 00 07 80 C3\<close>, whatever the request. Two runs that differ only in the patch
  bytes, both staged within the function-name buffer and with the same answer of the
  pool for the patch buffer, return the same status and ask for the same copies and
  protection changes. The staging leaves \<open>FunctionName\<close> in the function-name buffer: the
  third \<open>memcpy\<close> stores bytes of \<open>FunctionName\<close> there and nothing in the patch buffer, and
  the copy reads \<open>testPatch\<close>.
\<close>

theorem PatchModule_copies_constant:
  "(\<forall>c \<in> set (copy_requests (result_events (PatchModule k M))). snd c = testPatch) \<and>
   testPatch = [0xB8, 0x57, 0x00, 0x07, 0x80, 0xC3] \<and>
   (ExAllocatePool k PatchBuffer (strlen p) = ExAllocatePool k PatchBuffer (strlen p') \<and>
    strlen p \<le> strlen (FunctionName M) + 1 \<and> strlen p' \<le> strlen (FunctionName M) + 1 \<longrightarrow>
      result_status (PatchModule k (M\<lparr>Patch := p\<rparr>)) = result_status (PatchModule k (M\<lparr>Patch := p'\<rparr>)) \<and>
      copy_requests (result_events (PatchModule k (M\<lparr>Patch := p\<rparr>))) =
        copy_requests (result_events (PatchModule k (M\<lparr>Patch := p'\<rparr>))) \<and>
      protect_requests (result_events (PatchModule k (M\<lparr>Patch := p\<rparr>))) =
        protect_requests (result_events (PatchModule k (M\<lparr>Patch := p'\<rparr>)))) \<and>
   (\<forall>moduleName functionName staged.
      stage_request k M = Inr (moduleName, functionName, staged) \<longrightarrow>
        moduleName = c_wstring (ModuleName M) \<and> functionName = c_string (FunctionName M))"
proof (intro conjI)
  show "\<forall>c \<in> set (copy_requests (result_events (PatchModule k M))). snd c = testPatch"
    using PatchModule_copies [of k M] by auto
  show "testPatch = [0xB8, 0x57, 0x00, 0x07, 0x80, 0xC3]" by (simp add: testPatch_def)
  show "ExAllocatePool k PatchBuffer (strlen p) = ExAllocatePool k PatchBuffer (strlen p') \<and>
    strlen p \<le> strlen (FunctionName M) + 1 \<and> strlen p' \<le> strlen (FunctionName M) + 1 \<longrightarrow>
      result_status (PatchModule k (M\<lparr>Patch := p\<rparr>)) = result_status (PatchModule k (M\<lparr>Patch := p'\<rparr>)) \<and>
      copy_requests (result_events (PatchModule k (M\<lparr>Patch := p\<rparr>))) =
        copy_requests (result_events (PatchModule k (M\<lparr>Patch := p'\<rparr>))) \<and>
      protect_requests (result_events (PatchModule k (M\<lparr>Patch := p\<rparr>))) =
        protect_requests (result_events (PatchModule k (M\<lparr>Patch := p'\<rparr>)))"
    using PatchModule_Patch_independent [of k p p' M] by blast
  show "\<forall>moduleName functionName staged.
      stage_request k M = Inr (moduleName, functionName, staged) \<longrightarrow>
        moduleName = c_wstring (ModuleName M) \<and> functionName = c_string (FunctionName M)"
    by (auto simp: stage_request_cases split: if_splits)
qed

theorem PatchModule_copies_constant_witness:
  "copy_requests (result_events (PatchModule demo_kernel demo_request)) =
     [(0x403010, [0xB8, 0x57, 0x00, 0x07, 0x80, 0xC3])] \<and>
   copy_requests (result_events (PatchModule demo_kernel
       (demo_request\<lparr>Patch := [1, 2, 3, 0, 9, 9, 9, 9]\<rparr>))) =
     [(0x403010, [0xB8, 0x57, 0x00, 0x07, 0x80, 0xC3])] \<and>
   stage_request demo_kernel demo_request =
     Inr ([0x61, 0], [0x66, 0x6F, 0x6F, 0],
          [PoolAllocated ModuleNameBuffer 4, PoolAllocated FunctionNameBuffer 4,
           PoolAllocated PatchBuffer 2])"
proof -
  have same: "demo_request\<lparr>Patch := [0x90, 0x90]\<rparr> = demo_request"
    by (simp add: demo_request_def)
  have hyp: "ExAllocatePool demo_kernel PatchBuffer (strlen [0x90, 0x90]) =
      ExAllocatePool demo_kernel PatchBuffer (strlen [1, 2, 3, 0, 9, 9, 9, 9]) \<and>
      strlen [0x90, 0x90] \<le> strlen (FunctionName demo_request) + 1 \<and>
      strlen [1, 2, 3, 0, 9, 9, 9, 9] \<le> strlen (FunctionName demo_request) + 1"
    by (simp add: demo_kernel_def demo_request_def strlen_def)
  have first: "copy_requests (result_events (PatchModule demo_kernel demo_request)) =
      [(0x403010, testPatch)]"
    by (simp add: demo_run)
  from PatchModule_copies_constant
         [where k = demo_kernel and M = demo_request and p = "[0x90, 0x90]"
            and p' = "[1, 2, 3, 0, 9, 9, 9, 9]"]
       hyp same first demo_stage
  show ?thesis by simp
qed

end
